theory Spec2Isabelle
  imports Main "HOL-Library.Word"
begin

section \<open>Data model of the node manager contract\<close>

text \<open>
  The embedding follows \<^verbatim>\<open>package node_manager\<close> of
  \<^verbatim>\<open>okex_handler.go\<close>: \<^verbatim>\<open>Propose\<close>, \<^verbatim>\<open>Vote\<close>, \<^verbatim>\<open>dirtyJob\<close> and
  \<^verbatim>\<open>CheckConsensusSigns\<close>. Block heights and epoch ids are \<^verbatim>\<open>uint64\<close> and wrap
  around; addresses are 20 bytes.
\<close>

type_synonym address = "160 word"
type_synonym u64 = "64 word"
type_synonym bytes = "8 word list"

record Peer =
  PubKey :: bytes
  Address :: address

datatype ProposalStatus = ProposalStatusPropose | ProposalStatusPassed

record EpochInfo =
  ID :: u64
  Peers :: "Peer list"
  StartHeight :: u64
  Proposer :: address
  Status :: ProposalStatus

record ConsensusSign =
  Method :: string
  Input :: bytes

text \<open>
  Modelled from the spec: the hash functions \<^verbatim>\<open>EpochInfo.Hash\<close> and
  \<^verbatim>\<open>ConsensusSign.Hash\<close> are not in the source. The spec describes a deterministic
  content hash over all fields except transient bookkeeping (the status), with no two
  distinct contents sharing a hash. A hash value is therefore the hashed content itself;
  \<open>EmptyHash\<close> is \<^verbatim>\<open>common.EmptyHash\<close>.
\<close>

datatype hash =
    EmptyHash
  | EpochHash u64 "Peer list" u64 address
  | SignHash string bytes

definition EpochInfo_Hash :: "EpochInfo \<Rightarrow> hash" where
  "EpochInfo_Hash e = EpochHash (ID e) (Peers e) (StartHeight e) (Proposer e)"

definition ConsensusSign_Hash :: "ConsensusSign \<Rightarrow> hash" where
  "ConsensusSign_Hash sg = SignHash (Method sg) (Input sg)"

datatype error =
    ErrEpochNotExist
  | ErrInvalidAuthority
  | ErrInvalidInput
  | ErrInvalidPeers
  | ErrPeersNum
  | ErrInvalidPubKey
  | ErrOldParticipantsNumber
  | ErrProposalStartHeight
  | ErrDuplicateProposal
  | ErrProposalsNum
  | ErrStorage
  | ErrEmitLog
  | ErrProposalNotExist
  | ErrProposalPassed
  | ErrInvalidEpoch
  | ErrVoteHeight
  | ErrEpochProofNotExist
  | ErrConsensusSignNotExist
  | ErrInvalidSign
  | ErrDuplicateSigner

text \<open>The value sent on \<^verbatim>\<open>epochChangeFeed\<close> (\<^verbatim>\<open>types.EpochChangeEvent\<close>).\<close>

record EpochChangeEvent =
  ev_EpochID :: u64
  ev_StartHeight :: u64
  ev_Validators :: "address list"
  ev_Hash :: hash

text \<open>The event-log entries written by the four \<^verbatim>\<open>emit...\<close> calls.\<close>

datatype event_log =
    EventProposed EpochInfo
  | EventVoted u64 hash nat nat
  | EventEpochChange EpochInfo EpochInfo
  | EventConsensusSign ConsensusSign address nat

text \<open>
  The calls of the source that return an \<^verbatim>\<open>error\<close> which the caller checks. Whether
  such a call fails is decided by the host (encoding, storage, event sink), so the call
  context carries it.
\<close>

datatype fallible =
    OpStoreEpoch
  | OpStoreProposal
  | OpStoreVote
  | OpDeleteVote
  | OpEmitProposed
  | OpEmitVoted
  | OpEmitEpochChange
  | OpGetSign
  | OpStoreSign
  | OpStoreSigner
  | OpEmitConsensusSign

record Context =
  TxOrigin :: address
  Caller :: address
  BlockHeight :: u64
  fails :: "fallible \<Rightarrow> bool"

record MethodProposeInput =
  in_StartHeight :: u64
  in_Peers :: "Peer list"

record MethodVoteInput =
  in_EpochID :: u64
  in_Hash :: hash

text \<open>
  The contract's key-value storage, one field per key family, together with the event log
  and the process-wide \<^verbatim>\<open>epochChangeFeed\<close>.
\<close>

record State =
  current_epoch_hash :: "hash option"
  epochs :: "hash \<rightharpoonup> EpochInfo"
  epoch_proofs :: "u64 \<rightharpoonup> hash"
  proposals :: "u64 \<Rightarrow> hash list"
  votes :: "hash \<Rightarrow> address list"
  vote_to :: "u64 \<times> address \<rightharpoonup> hash"
  signs :: "hash \<rightharpoonup> ConsensusSign"
  signers :: "hash \<Rightarrow> address list"
  event_logs :: "event_log list"
  epochChangeFeed :: "EpochChangeEvent list"

section \<open>Constants\<close>

definition MinEpochValidPeriod :: u64 where "MinEpochValidPeriod = 60"
definition DefaultEpochValidPeriod :: u64 where "DefaultEpochValidPeriod = 86400"
definition MaxEpochValidPeriod :: u64 where "MaxEpochValidPeriod = 86400 * 10"
definition MinProposalPeersLen :: nat where "MinProposalPeersLen = 4"
definition MaxProposalPeersLen :: nat where "MaxProposalPeersLen = 100"
definition MaxProposalNumPerEpoch :: nat where "MaxProposalNumPerEpoch = 3"
definition MinVoteEffectivePeriod :: u64 where "MinVoteEffectivePeriod = 10"

section \<open>Helpers that the source calls and does not define\<close>

text \<open>
  Modelled from the spec: \<^verbatim>\<open>QuorumSize\<close> is not in the source. The spec gives the
  Byzantine quorum of a group of \<open>n\<close> members with up to \<open>f = (n - 1) div 3\<close> faulty
  ones: the smallest count for which two quorums share an honest member, that is the least
  \<open>q\<close> with \<open>2 * q - n \<ge> f + 1\<close>.
\<close>

definition quorum_size :: "nat \<Rightarrow> nat" where
  "quorum_size n = (n + (n - 1) div 3 + 2) div 2"

definition QuorumSize :: "EpochInfo \<Rightarrow> nat" where
  "QuorumSize e = quorum_size (length (Peers e))"

text \<open>Modelled from the spec: the member list of an epoch is the addresses of its peers.\<close>

definition MemberList :: "EpochInfo \<Rightarrow> address list" where
  "MemberList e = map Address (Peers e)"

text \<open>
  Modelled from the spec: \<^verbatim>\<open>checkAuthority\<close> is not in the source. It fails unless the
  claimed origin is a member of the active epoch and the caller is that origin.
\<close>

definition checkAuthority :: "address \<Rightarrow> address \<Rightarrow> EpochInfo \<Rightarrow> bool" where
  "checkAuthority origin caller epoch =
     (origin = caller \<and> origin \<in> set (MemberList epoch))"

text \<open>
  Modelled from the spec: \<^verbatim>\<open>checkPeer\<close> is not in the source. A peer is accepted when
  its public key derives its address; the derivation rule is a parameter.
\<close>

definition checkPeer :: "(bytes \<Rightarrow> address) \<Rightarrow> Peer \<Rightarrow> bool" where
  "checkPeer derive p = (derive (PubKey p) = Address p)"

text \<open>
  Modelled from the spec: \<^verbatim>\<open>OldMemberNum\<close> is not in the source. The overlap of a
  candidate set with the current membership is counted by address.
\<close>

definition OldMemberNum :: "EpochInfo \<Rightarrow> Peer list \<Rightarrow> nat" where
  "OldMemberNum cur peers =
     length (filter (\<lambda>p. Address p \<in> set (MemberList cur)) peers)"

text \<open>
  Modelled from the spec: the comparison behind \<^verbatim>\<open>sort.Sort(peers)\<close> is not in the
  source. The canonical order is taken to be ascending address.
\<close>

definition sortPeers :: "Peer list \<Rightarrow> Peer list" where
  "sortPeers peers = sort_key Address peers"

subsection \<open>Storage primitives\<close>

text \<open>
  Modelled from the spec: the storage primitives of the epoch store are not in the source.
  The spec's data model gives their meaning: an \<^verbatim>\<open>EpochInfo\<close> is stored under its
  hash, the current epoch is found through its stored hash, and the approval proof of an
  epoch id is a hash. A primitive whose error the source checks fails, without writing,
  when the context says so.
\<close>

definition getEpoch :: "State \<Rightarrow> hash \<Rightarrow> EpochInfo option" where
  "getEpoch s h = epochs s h"

definition GetCurrentEpoch :: "State \<Rightarrow> EpochInfo option" where
  "GetCurrentEpoch s =
     (case current_epoch_hash s of None \<Rightarrow> None | Some h \<Rightarrow> getEpoch s h)"

definition storeEpoch :: "Context \<Rightarrow> State \<Rightarrow> EpochInfo \<Rightarrow> State option" where
  "storeEpoch ctx s e =
     (if fails ctx OpStoreEpoch then None
      else Some (s\<lparr>epochs := (epochs s)(EpochInfo_Hash e \<mapsto> e)\<rparr>))"

definition delEpoch :: "State \<Rightarrow> hash \<Rightarrow> State" where
  "delEpoch s h = s\<lparr>epochs := (epochs s)(h := None)\<rparr>"

definition storeCurrentEpochHash :: "State \<Rightarrow> hash \<Rightarrow> State" where
  "storeCurrentEpochHash s h = s\<lparr>current_epoch_hash := Some h\<rparr>"

definition storeEpochProof :: "State \<Rightarrow> u64 \<Rightarrow> hash \<Rightarrow> State" where
  "storeEpochProof s epochID h = s\<lparr>epoch_proofs := (epoch_proofs s)(epochID \<mapsto> h)\<rparr>"

definition getEpochProof :: "State \<Rightarrow> u64 \<Rightarrow> hash option" where
  "getEpochProof s epochID = epoch_proofs s epochID"

text \<open>
  Modelled from the spec: the primitives of the proposal index are not in the source. The
  index maps an epoch id to the proposal hashes made for it, in the order they were made;
  the number of proposals of a proposer is counted over the indexed records.
\<close>

definition getProposals :: "State \<Rightarrow> u64 \<Rightarrow> hash list" where
  "getProposals s epochID = proposals s epochID"

definition findProposal :: "State \<Rightarrow> u64 \<Rightarrow> hash \<Rightarrow> bool" where
  "findProposal s epochID h = (h \<in> set (getProposals s epochID))"

definition checkProposal :: "State \<Rightarrow> u64 \<Rightarrow> hash \<Rightarrow> bool" where
  "checkProposal s epochID h = findProposal s epochID h"

definition storeProposal :: "Context \<Rightarrow> State \<Rightarrow> u64 \<Rightarrow> hash \<Rightarrow> State option" where
  "storeProposal ctx s epochID h =
     (if fails ctx OpStoreProposal then None
      else Some (s\<lparr>proposals := (proposals s)(epochID := proposals s epochID @ [h])\<rparr>))"

definition delProposal :: "State \<Rightarrow> u64 \<Rightarrow> hash \<Rightarrow> State" where
  "delProposal s epochID h =
     s\<lparr>proposals := (proposals s)(epochID := removeAll h (proposals s epochID))\<rparr>"

definition proposalsNum :: "State \<Rightarrow> u64 \<Rightarrow> address \<Rightarrow> nat" where
  "proposalsNum s epochID proposer =
     length (filter (\<lambda>h. case getEpoch s h of None \<Rightarrow> False
                                              | Some e \<Rightarrow> Proposer e = proposer)
                    (getProposals s epochID))"

text \<open>
  Modelled from the spec: the primitives of the vote sets are not in the source. A vote
  set is a set of voter addresses, kept as a list without repetitions; the tally is its
  length, and deleting an address that is not in the set changes nothing.
\<close>

definition voteSize :: "State \<Rightarrow> hash \<Rightarrow> nat" where
  "voteSize s h = length (votes s h)"

definition storeVote :: "Context \<Rightarrow> State \<Rightarrow> hash \<Rightarrow> address \<Rightarrow> State option" where
  "storeVote ctx s h voter =
     (if fails ctx OpStoreVote then None
      else Some (s\<lparr>votes := (votes s)(h := List.insert voter (votes s h))\<rparr>))"

definition deleteVote :: "Context \<Rightarrow> State \<Rightarrow> hash \<Rightarrow> address \<Rightarrow> State option" where
  "deleteVote ctx s h voter =
     (if fails ctx OpDeleteVote then None
      else Some (s\<lparr>votes := (votes s)(h := removeAll voter (votes s h))\<rparr>))"

definition clearVotes :: "State \<Rightarrow> hash \<Rightarrow> State" where
  "clearVotes s h = s\<lparr>votes := (votes s)(h := [])\<rparr>"

text \<open>
  Modelled from the spec: the primitives of the last-voted pointer are not in the source.
  The pointer maps an epoch id and a voter to a proposal hash; a missing pointer reads as
  \<^verbatim>\<open>common.EmptyHash\<close>.
\<close>

definition findVoteTo :: "State \<Rightarrow> u64 \<Rightarrow> address \<Rightarrow> hash" where
  "findVoteTo s epochID voter =
     (case vote_to s (epochID, voter) of None \<Rightarrow> EmptyHash | Some h \<Rightarrow> h)"

definition storeVoteTo :: "State \<Rightarrow> u64 \<Rightarrow> address \<Rightarrow> hash \<Rightarrow> State" where
  "storeVoteTo s epochID voter h = s\<lparr>vote_to := (vote_to s)((epochID, voter) \<mapsto> h)\<rparr>"

definition delVoteTo :: "State \<Rightarrow> u64 \<Rightarrow> address \<Rightarrow> State" where
  "delVoteTo s epochID voter = s\<lparr>vote_to := (vote_to s)((epochID, voter) := None)\<rparr>"

text \<open>
  Modelled from the spec: the primitives of the sign records and signer sets are not in
  the source. A sign record is stored under its hash and a signer set is a set of
  addresses. Reading a record has three results: found, the not-found error
  \<^verbatim>\<open>"EOF"\<close>, and any other error.
\<close>

datatype 'a lookup = Found 'a | NotFoundEOF | ReadError

definition getSign :: "Context \<Rightarrow> State \<Rightarrow> hash \<Rightarrow> ConsensusSign lookup" where
  "getSign ctx s h =
     (if fails ctx OpGetSign then ReadError
      else case signs s h of None \<Rightarrow> NotFoundEOF | Some sg \<Rightarrow> Found sg)"

definition storeSign :: "Context \<Rightarrow> State \<Rightarrow> ConsensusSign \<Rightarrow> State option" where
  "storeSign ctx s sg =
     (if fails ctx OpStoreSign then None
      else Some (s\<lparr>signs := (signs s)(ConsensusSign_Hash sg \<mapsto> sg)\<rparr>))"

definition findSigner :: "State \<Rightarrow> hash \<Rightarrow> address \<Rightarrow> bool" where
  "findSigner s h signer = (signer \<in> set (signers s h))"

definition getSignerSize :: "State \<Rightarrow> hash \<Rightarrow> nat" where
  "getSignerSize s h = length (signers s h)"

definition storeSigner :: "Context \<Rightarrow> State \<Rightarrow> hash \<Rightarrow> address \<Rightarrow> State option" where
  "storeSigner ctx s h signer =
     (if fails ctx OpStoreSigner then None
      else Some (s\<lparr>signers := (signers s)(h := List.insert signer (signers s h))\<rparr>))"

subsection \<open>Event log\<close>

text \<open>
  Modelled from the spec: the \<^verbatim>\<open>emit...\<close> functions are not in the source. Each one
  appends its entry to the event log, or fails without writing.
\<close>

definition emitEventProposed :: "Context \<Rightarrow> State \<Rightarrow> EpochInfo \<Rightarrow> State option" where
  "emitEventProposed ctx s e =
     (if fails ctx OpEmitProposed then None
      else Some (s\<lparr>event_logs := event_logs s @ [EventProposed e]\<rparr>))"

definition emitEventVoted ::
  "Context \<Rightarrow> State \<Rightarrow> u64 \<Rightarrow> hash \<Rightarrow> nat \<Rightarrow> nat \<Rightarrow> State option" where
  "emitEventVoted ctx s epochID h sz groupSize =
     (if fails ctx OpEmitVoted then None
      else Some (s\<lparr>event_logs := event_logs s @ [EventVoted epochID h sz groupSize]\<rparr>))"

definition emitEpochChange :: "Context \<Rightarrow> State \<Rightarrow> EpochInfo \<Rightarrow> EpochInfo \<Rightarrow> State option" where
  "emitEpochChange ctx s cur nxt =
     (if fails ctx OpEmitEpochChange then None
      else Some (s\<lparr>event_logs := event_logs s @ [EventEpochChange cur nxt]\<rparr>))"

definition emitConsensusSign ::
  "Context \<Rightarrow> State \<Rightarrow> ConsensusSign \<Rightarrow> address \<Rightarrow> nat \<Rightarrow> State option" where
  "emitConsensusSign ctx s sg signer sz =
     (if fails ctx OpEmitConsensusSign then None
      else Some (s\<lparr>event_logs := event_logs s @ [EventConsensusSign sg signer sz]\<rparr>))"

text \<open>\<^verbatim>\<open>epochChangeFeed.Send\<close>: the event is handed to the subscribers.\<close>

definition feedSend :: "State \<Rightarrow> EpochChangeEvent \<Rightarrow> State" where
  "feedSend s ev = s\<lparr>epochChangeFeed := epochChangeFeed s @ [ev]\<rparr>"

section \<open>The operations of the source\<close>

subsection \<open>\<^verbatim>\<open>Propose\<close>\<close>

definition Propose ::
  "(bytes \<Rightarrow> address) \<Rightarrow> Context \<Rightarrow> MethodProposeInput option \<Rightarrow> State
     \<Rightarrow> (error + unit) \<times> State" where
  "Propose derive ctx payload s =
    (let height = BlockHeight ctx; proposer = TxOrigin ctx; caller = Caller ctx in
     case GetCurrentEpoch s of
       None \<Rightarrow> (Inl ErrEpochNotExist, s)
     | Some curEpoch \<Rightarrow>
     (if \<not> checkAuthority proposer caller curEpoch then (Inl ErrInvalidAuthority, s) else
     (case payload of
       None \<Rightarrow> (Inl ErrInvalidInput, s)
     | Some input \<Rightarrow>
     (let peers = in_Peers input; startHeight = in_StartHeight input in
     if length peers = 0 then (Inl ErrInvalidPeers, s) else
     if length peers < MinProposalPeersLen \<or> length peers > MaxProposalPeersLen
       then (Inl ErrPeersNum, s) else
     if list_ex (\<lambda>peer. \<not> checkPeer derive peer) peers then (Inl ErrInvalidPubKey, s) else
     if OldMemberNum curEpoch peers < QuorumSize curEpoch
       then (Inl ErrOldParticipantsNumber, s) else
     if startHeight > 0 \<and> (startHeight < height + MinEpochValidPeriod
                            \<or> startHeight > height + MaxEpochValidPeriod)
       then (Inl ErrProposalStartHeight, s) else
     (let startHeight = (if startHeight > 0 then startHeight
                        else height + DefaultEpochValidPeriod);
         epochID = ID curEpoch + 1;
         epoch = \<lparr>ID = epochID, Peers = sortPeers peers, StartHeight = startHeight,
                  Proposer = proposer, Status = ProposalStatusPropose\<rparr>;
         proposal = EpochInfo_Hash epoch in
     if checkProposal s epochID proposal then (Inl ErrDuplicateProposal, s) else
     if proposalsNum s epochID proposer \<ge> MaxProposalNumPerEpoch
       then (Inl ErrProposalsNum, s) else
     (case storeEpoch ctx s epoch of
       None \<Rightarrow> (Inl ErrStorage, s)
     | Some s1 \<Rightarrow>
     (case storeProposal ctx s1 (ID epoch) (EpochInfo_Hash epoch) of
       None \<Rightarrow> (Inl ErrStorage, s1)
     | Some s2 \<Rightarrow>
     (case storeVote ctx s2 proposal proposer of
       None \<Rightarrow> (Inl ErrStorage, s2)
     | Some s3 \<Rightarrow>
     (let s4 = storeVoteTo s3 epochID proposer proposal in
     case emitEventProposed ctx s4 epoch of
       None \<Rightarrow> (Inl ErrEmitLog, s4)
     | Some s5 \<Rightarrow> (Inr (), s5))))))))))"

subsection \<open>\<^verbatim>\<open>dirtyJob\<close>\<close>

text \<open>
  The inner loop of \<^verbatim>\<open>dirtyJob\<close> over \<^verbatim>\<open>last.Peers.List\<close>; \<open>None\<close> is the nil
  pointer.
\<close>

definition delVoteToAll :: "EpochInfo option \<Rightarrow> u64 \<Rightarrow> State \<Rightarrow> State" where
  "delVoteToAll lastEpoch epochID s =
     (case lastEpoch of
        None \<Rightarrow> s
      | Some l \<Rightarrow> foldl (\<lambda>st peer. delVoteTo st epochID (Address peer)) s (Peers l))"

text \<open>The outer loop of \<^verbatim>\<open>dirtyJob\<close> over the proposals read at its start.\<close>

fun dirtyJob_loop :: "EpochInfo option \<Rightarrow> EpochInfo \<Rightarrow> hash list \<Rightarrow> State \<Rightarrow> State" where
  "dirtyJob_loop lastEpoch cur [] s = s"
| "dirtyJob_loop lastEpoch cur (v # vs) s =
     (if v = EpochInfo_Hash cur then dirtyJob_loop lastEpoch cur vs s
      else
        let s1 = delEpoch s v;
            s2 = delProposal s1 (ID cur) v;
            s3 = clearVotes s2 v;
            s4 = delVoteToAll lastEpoch (ID cur) s3
        in dirtyJob_loop lastEpoch cur vs s4)"

definition dirtyJob :: "EpochInfo option \<Rightarrow> EpochInfo \<Rightarrow> State \<Rightarrow> State" where
  "dirtyJob lastEpoch cur s = dirtyJob_loop lastEpoch cur (getProposals s (ID cur)) s"

subsection \<open>\<^verbatim>\<open>Vote\<close>\<close>

text \<open>
  The block of \<^verbatim>\<open>Vote\<close> guarded by \<^verbatim>\<open>sizeAfterVote == curEpoch.QuorumSize()\<close>: the
  change of epoch.
\<close>

definition changeEpoch ::
  "Context \<Rightarrow> State \<Rightarrow> EpochInfo \<Rightarrow> EpochInfo \<Rightarrow> (error + unit) \<times> State" where
  "changeEpoch ctx s curEpoch epoch0 =
    (let epoch = epoch0\<lparr>Status := ProposalStatusPassed\<rparr> in
     case storeEpoch ctx s epoch of
       None \<Rightarrow> (Inl ErrStorage, s)
     | Some s1 \<Rightarrow>
     (let s2 = storeCurrentEpochHash s1 (EpochInfo_Hash epoch);
         s3 = storeEpochProof s2 (ID epoch) (EpochInfo_Hash epoch) in
     case emitEpochChange ctx s3 curEpoch epoch of
       None \<Rightarrow> (Inl ErrEmitLog, s3)
     | Some s4 \<Rightarrow>
     (let s5 = dirtyJob (Some curEpoch) epoch s4;
         s6 = feedSend s5 \<lparr>ev_EpochID = StartHeight epoch,
                           ev_StartHeight = StartHeight epoch,
                           ev_Validators = MemberList epoch,
                           ev_Hash = EpochInfo_Hash epoch\<rparr>
     in (Inr (), s6))))"

text \<open>
  The part of \<^verbatim>\<open>Vote\<close> from \<^verbatim>\<open>// filter duplicate vote or delete old vote\<close>
  on: the voter's last vote for this epoch id is looked up, a repeated vote returns, a
  vote for another proposal is removed, and the new vote is stored and counted.
\<close>

definition recordVote ::
  "Context \<Rightarrow> MethodVoteInput \<Rightarrow> EpochInfo \<Rightarrow> EpochInfo \<Rightarrow> State
     \<Rightarrow> (error + unit) \<times> State" where
  "recordVote ctx input curEpoch epoch s =
    (let voter = TxOrigin ctx; epochID = in_EpochID input; proposal = in_Hash input;
         lastVote2 = findVoteTo s epochID voter in
     if lastVote2 \<noteq> EmptyHash \<and> lastVote2 = proposal then (Inr (), s) else
     (let s0 = (if lastVote2 \<noteq> EmptyHash then delVoteTo s epochID voter else s) in
     case (if lastVote2 \<noteq> EmptyHash then deleteVote ctx s0 proposal voter else Some s0) of
       None \<Rightarrow> (Inl ErrStorage, s0)
     | Some s1 \<Rightarrow>
     (let s2 = storeVoteTo s1 (in_EpochID input) voter proposal in
     case storeVote ctx s2 proposal voter of
       None \<Rightarrow> (Inl ErrStorage, s2)
     | Some s3 \<Rightarrow>
     (let sizeAfterVote = voteSize s3 proposal;
         groupSize = length (MemberList curEpoch) in
     case emitEventVoted ctx s3 (in_EpochID input) proposal sizeAfterVote groupSize of
       None \<Rightarrow> (Inl ErrEmitLog, s3)
     | Some s4 \<Rightarrow>
     if sizeAfterVote = QuorumSize curEpoch then changeEpoch ctx s4 curEpoch epoch
     else (Inr (), s4)))))"

definition Vote ::
  "Context \<Rightarrow> MethodVoteInput option \<Rightarrow> State \<Rightarrow> (error + unit) \<times> State" where
  "Vote ctx payload s =
    (let voter = TxOrigin ctx; caller = Caller ctx; height = BlockHeight ctx in
     case GetCurrentEpoch s of
       None \<Rightarrow> (Inl ErrEpochNotExist, s)
     | Some curEpoch \<Rightarrow>
     (if \<not> checkAuthority voter caller curEpoch then (Inl ErrInvalidAuthority, s) else
     (case payload of
       None \<Rightarrow> (Inl ErrInvalidInput, s)
     | Some input \<Rightarrow>
     (let epochID = in_EpochID input; proposal = in_Hash input in
     if epochID \<noteq> ID curEpoch + 1 then (Inl ErrInvalidInput, s) else
     if \<not> findProposal s epochID proposal then (Inl ErrProposalNotExist, s) else
     (case getEpoch s proposal of
       None \<Rightarrow> (Inl ErrEpochNotExist, s)
     | Some epoch \<Rightarrow>
     (if Status epoch = ProposalStatusPassed then (Inl ErrProposalPassed, s) else
     if epochID \<noteq> ID epoch then (Inl ErrInvalidEpoch, s) else
     if proposal \<noteq> EpochInfo_Hash epoch then (Inl ErrInvalidEpoch, s) else
     if height + MinVoteEffectivePeriod \<ge> StartHeight epoch then (Inl ErrVoteHeight, s) else
     (let sizeBeforeVote = voteSize s proposal in
     if sizeBeforeVote \<ge> QuorumSize curEpoch then (Inr (), s)
     else recordVote ctx input curEpoch epoch s)))))))"

subsection \<open>\<^verbatim>\<open>CheckConsensusSigns\<close>\<close>

text \<open>
  The part of \<^verbatim>\<open>CheckConsensusSigns\<close> after the sign record has been fetched or
  created.
\<close>

definition checkSigner ::
  "Context \<Rightarrow> EpochInfo \<Rightarrow> ConsensusSign \<Rightarrow> address \<Rightarrow> State \<Rightarrow> (error + bool) \<times> State" where
  "checkSigner ctx epoch sign signer s =
    (if findSigner s (ConsensusSign_Hash sign) signer then (Inl ErrDuplicateSigner, s) else
     (let sizeBeforeSign = getSignerSize s (ConsensusSign_Hash sign) in
     if sizeBeforeSign \<ge> QuorumSize epoch then (Inr True, s) else
     (case storeSigner ctx s (ConsensusSign_Hash sign) signer of
       None \<Rightarrow> (Inl ErrStorage, s)
     | Some s1 \<Rightarrow>
     (let sizeAfterSign = getSignerSize s1 (ConsensusSign_Hash sign) in
     case emitConsensusSign ctx s1 sign signer sizeAfterSign of
       None \<Rightarrow> (Inl ErrEmitLog, s1)
     | Some s2 \<Rightarrow> (Inr (sizeAfterSign \<ge> QuorumSize epoch), s2)))))"

definition CheckConsensusSigns ::
  "Context \<Rightarrow> string \<Rightarrow> bytes \<Rightarrow> address \<Rightarrow> State \<Rightarrow> (error + bool) \<times> State" where
  "CheckConsensusSigns ctx method input signer s =
    (let caller = Caller ctx in
     case GetCurrentEpoch s of
       None \<Rightarrow> (Inl ErrEpochNotExist, s)
     | Some epoch \<Rightarrow>
     (if \<not> checkAuthority signer caller epoch then (Inl ErrInvalidAuthority, s) else
     (let sign = \<lparr>Method = method, Input = input\<rparr> in
     case getSign ctx s (ConsensusSign_Hash sign) of
       ReadError \<Rightarrow> (Inl ErrConsensusSignNotExist, s)
     | NotFoundEOF \<Rightarrow>
         (case storeSign ctx s sign of
            None \<Rightarrow> (Inl ErrStorage, s)
          | Some s1 \<Rightarrow> checkSigner ctx epoch sign signer s1)
     | Found exist \<Rightarrow>
         (if ConsensusSign_Hash exist \<noteq> ConsensusSign_Hash sign then (Inl ErrInvalidSign, s)
         else checkSigner ctx epoch sign signer s))))"

section \<open>States left by a vote, and reachable states\<close>

text \<open>
  The state \<^verbatim>\<open>Vote\<close> has built when it has stored the vote and emitted the Voted
  event: the pointer and the vote set are written as the recording part of the source
  does.
\<close>

definition votedState :: "Context \<Rightarrow> MethodVoteInput \<Rightarrow> EpochInfo \<Rightarrow> State \<Rightarrow> State" where
  "votedState ctx input curEpoch s =
    (let voter = TxOrigin ctx; epochID = in_EpochID input; proposal = in_Hash input;
         vs = List.insert voter
                (if findVoteTo s epochID voter \<noteq> EmptyHash
                 then removeAll voter (votes s proposal) else votes s proposal)
     in s\<lparr>vote_to := (vote_to s)((epochID, voter) \<mapsto> proposal),
          votes := (votes s)(proposal := vs),
          event_logs := event_logs s
             @ [EventVoted epochID proposal (length vs) (length (MemberList curEpoch))]\<rparr>)"

text \<open>The state left by the change of epoch when none of its calls fails.\<close>

definition changedState :: "EpochInfo \<Rightarrow> EpochInfo \<Rightarrow> State \<Rightarrow> State" where
  "changedState curEpoch epoch0 s =
    (let epoch = epoch0\<lparr>Status := ProposalStatusPassed\<rparr> in
     feedSend
       (dirtyJob (Some curEpoch) epoch
          (s\<lparr>epochs := (epochs s)(EpochInfo_Hash epoch \<mapsto> epoch),
             current_epoch_hash := Some (EpochInfo_Hash epoch),
             epoch_proofs := (epoch_proofs s)(ID epoch \<mapsto> EpochInfo_Hash epoch),
             event_logs := event_logs s @ [EventEpochChange curEpoch epoch]\<rparr>))
       \<lparr>ev_EpochID = StartHeight epoch, ev_StartHeight = StartHeight epoch,
         ev_Validators = MemberList epoch, ev_Hash = EpochInfo_Hash epoch\<rparr>)"

text \<open>
  Modelled from the spec: the bootstrap of the contract is not in the source. The first
  state is the one in which a first epoch is the current epoch and nothing else is stored.
\<close>

definition genesisState :: "EpochInfo \<Rightarrow> State" where
  "genesisState g =
     \<lparr>current_epoch_hash = Some (EpochInfo_Hash g),
      epochs = [EpochInfo_Hash g \<mapsto> g],
      epoch_proofs = Map.empty,
      proposals = (\<lambda>_. []),
      votes = (\<lambda>_. []),
      vote_to = Map.empty,
      signs = Map.empty,
      signers = (\<lambda>_. []),
      event_logs = [],
      epochChangeFeed = []\<rparr>"

text \<open>
  The states reached from the first epoch \<open>g\<close> by \<open>n\<close> successful calls. A call that
  returns an error is reverted by the host and leaves no state of its own.
\<close>

inductive reach :: "(bytes \<Rightarrow> address) \<Rightarrow> EpochInfo \<Rightarrow> nat \<Rightarrow> State \<Rightarrow> bool"
  for derive :: "bytes \<Rightarrow> address" and g :: EpochInfo where
  reach_genesis: "reach derive g 0 (genesisState g)"
| reach_Propose:
    "reach derive g n s \<Longrightarrow> Propose derive ctx payload s = (Inr (), s')
       \<Longrightarrow> reach derive g (Suc n) s'"
| reach_Vote:
    "reach derive g n s \<Longrightarrow> Vote ctx payload s = (Inr (), s')
       \<Longrightarrow> reach derive g (Suc n) s'"
| reach_CheckConsensusSigns:
    "reach derive g n s \<Longrightarrow> CheckConsensusSigns ctx method input signer s = (Inr b, s')
       \<Longrightarrow> reach derive g (Suc n) s'"

text \<open>
  The invariant of the reachable states, relative to the first epoch \<open>g\<close> and the
  number \<open>n\<close> of calls made: there is a current epoch, whose id is at most \<open>n\<close> above
  the first; every stored epoch record sits under its own hash and has at least two
  peers; a non-empty vote set belongs to a proposal indexed for the next epoch id or to a
  Passed record of an epoch id not above the current one; and a vote set that has reached
  the quorum of the current epoch belongs to a Passed record.
\<close>

definition stateInv :: "EpochInfo \<Rightarrow> nat \<Rightarrow> State \<Rightarrow> bool" where
  "stateInv g n s =
    (case GetCurrentEpoch s of
       None \<Rightarrow> False
     | Some cur \<Rightarrow>
         unat (ID cur) \<le> unat (ID g) + n
       \<and> (\<forall>h e. epochs s h = Some e \<longrightarrow> EpochInfo_Hash e = h \<and> 2 \<le> length (Peers e))
       \<and> (\<forall>h. votes s h \<noteq> [] \<longrightarrow>
             h \<in> set (proposals s (ID cur + 1))
             \<or> (\<exists>e. epochs s h = Some e \<and> Status e = ProposalStatusPassed
                    \<and> unat (ID e) \<le> unat (ID cur)))
       \<and> (\<forall>h. QuorumSize cur \<le> voteSize s h \<longrightarrow>
             (\<exists>e. epochs s h = Some e \<and> Status e = ProposalStatusPassed)))"

text \<open>
  A second invariant of the reachable states, which needs no bound on the size of the
  first epoch: there is a current epoch, whose id is at most \<open>n\<close> above the first;
  every stored epoch record sits under its own hash; every hash indexed under an epoch id
  is the hash of a proposal for that id; and every Passed record has an epoch id not
  above the current one.
\<close>

definition baseInv :: "EpochInfo \<Rightarrow> nat \<Rightarrow> State \<Rightarrow> bool" where
  "baseInv g n s =
    (case GetCurrentEpoch s of
       None \<Rightarrow> False
     | Some cur \<Rightarrow>
         unat (ID cur) \<le> unat (ID g) + n
       \<and> (\<forall>h e. epochs s h = Some e \<longrightarrow> EpochInfo_Hash e = h)
       \<and> (\<forall>i h. h \<in> set (proposals s i) \<longrightarrow> (\<exists>ps sh pr. h = EpochHash i ps sh pr))
       \<and> (\<forall>h e. epochs s h = Some e \<and> Status e = ProposalStatusPassed \<longrightarrow>
             unat (ID e) \<le> unat (ID cur)))"

text \<open>
  The states reached from a state \<open>s0\<close> by \<open>m\<close> further successful calls.
\<close>

inductive steps :: "(bytes \<Rightarrow> address) \<Rightarrow> State \<Rightarrow> nat \<Rightarrow> State \<Rightarrow> bool"
  for derive :: "bytes \<Rightarrow> address" and s0 :: State where
  steps_start: "steps derive s0 0 s0"
| steps_Propose:
    "steps derive s0 m s \<Longrightarrow> Propose derive ctx payload s = (Inr (), s')
       \<Longrightarrow> steps derive s0 (Suc m) s'"
| steps_Vote:
    "steps derive s0 m s \<Longrightarrow> Vote ctx payload s = (Inr (), s')
       \<Longrightarrow> steps derive s0 (Suc m) s'"
| steps_CheckConsensusSigns:
    "steps derive s0 m s \<Longrightarrow> CheckConsensusSigns ctx meth input signer s = (Inr b, s')
       \<Longrightarrow> steps derive s0 (Suc m) s'"

text \<open>
  Modelled from the spec: the host that invokes the contract is not in the source. The
  spec says that the storage is rolled back automatically by the host if the enclosing
  transaction fails: a call that returns an error leaves the state it was invoked in, and
  a call that succeeds leaves the state it has written.
\<close>

definition hostCall ::
  "(State \<Rightarrow> (error + 'a) \<times> State) \<Rightarrow> State \<Rightarrow> (error + 'a) \<times> State" where
  "hostCall f s =
     (case f s of
        (Inl e, s') \<Rightarrow> (Inl e, s)
      | (Inr r, s') \<Rightarrow> (Inr r, s'))"

section \<open>A test scenario\<close>

text \<open>
  A four-member epoch with id 1, whose members have the addresses 1 to 4, and calls made
  by a member in a host where no storage or event call fails. The derivation rule of the
  scenario reads the address from the first byte of the public key.
\<close>

definition test_derive :: "bytes \<Rightarrow> address" where
  "test_derive pk = (case pk of [] \<Rightarrow> 0 | b # _ \<Rightarrow> ucast b)"

definition test_peer :: "8 word \<Rightarrow> Peer" where
  "test_peer b = \<lparr>PubKey = [b], Address = ucast b\<rparr>"

definition test_epoch1 :: EpochInfo where
  "test_epoch1 = \<lparr>ID = 1, Peers = map test_peer [1, 2, 3, 4], StartHeight = 0,
                   Proposer = 0, Status = ProposalStatusPassed\<rparr>"

definition test_genesis :: State where
  "test_genesis =
     \<lparr>current_epoch_hash = Some (EpochInfo_Hash test_epoch1),
      epochs = [EpochInfo_Hash test_epoch1 \<mapsto> test_epoch1],
      epoch_proofs = Map.empty,
      proposals = (\<lambda>_. []),
      votes = (\<lambda>_. []),
      vote_to = Map.empty,
      signs = Map.empty,
      signers = (\<lambda>_. []),
      event_logs = [],
      epochChangeFeed = []\<rparr>"

definition test_call :: "address \<Rightarrow> u64 \<Rightarrow> Context" where
  "test_call a h = \<lparr>TxOrigin = a, Caller = a, BlockHeight = h, fails = (\<lambda>_. False)\<rparr>"

text \<open>Proposal A, made by member 1: five peers, start height 1000.\<close>

definition test_inputA :: MethodProposeInput where
  "test_inputA = \<lparr>in_StartHeight = 1000, in_Peers = map test_peer [1, 2, 3, 4, 5]\<rparr>"

definition test_hashA :: hash where
  "test_hashA = EpochHash 2 (map test_peer [1, 2, 3, 4, 5]) 1000 1"

text \<open>Proposal B, made by member 2: the four old peers, start height 2000.\<close>

definition test_inputB :: MethodProposeInput where
  "test_inputB = \<lparr>in_StartHeight = 2000, in_Peers = map test_peer [1, 2, 3, 4]\<rparr>"

definition test_hashB :: hash where
  "test_hashB = EpochHash 2 (map test_peer [1, 2, 3, 4]) 2000 2"

definition test_vote :: "hash \<Rightarrow> MethodVoteInput" where
  "test_vote h = \<lparr>in_EpochID = 2, in_Hash = h\<rparr>"

text \<open>The state after member 1 has proposed A and member 2 has proposed B.\<close>

definition test_proposed :: State where
  "test_proposed =
     snd (Propose test_derive (test_call 2 100) (Some test_inputB)
       (snd (Propose test_derive (test_call 1 100) (Some test_inputA) test_genesis)))"

text \<open>Member 3 votes for A, then for B; then member 4 votes for B.\<close>

definition test_votedA :: State where
  "test_votedA = snd (Vote (test_call 3 101) (Some (test_vote test_hashA)) test_proposed)"

definition test_switched :: State where
  "test_switched = snd (Vote (test_call 3 102) (Some (test_vote test_hashB)) test_votedA)"

definition test_passedB :: State where
  "test_passedB = snd (Vote (test_call 4 103) (Some (test_vote test_hashB)) test_switched)"

text \<open>
  A second run in which A is the only proposal: member 1 proposes it, members 2 and 3 vote
  for it.
\<close>

definition test_onlyA :: State where
  "test_onlyA =
     snd (Vote (test_call 2 101) (Some (test_vote test_hashA))
       (snd (Propose test_derive (test_call 1 100) (Some test_inputA) test_genesis)))"

definition test_passedA :: State where
  "test_passedA = snd (Vote (test_call 3 102) (Some (test_vote test_hashA)) test_onlyA)"

text \<open>
  A third run, for \<^verbatim>\<open>CheckConsensusSigns\<close>: members 1 and 2 sign the pair of method
  \<open>''m''\<close> and input \<open>[7]\<close>.
\<close>

definition test_signed1 :: State where
  "test_signed1 = snd (CheckConsensusSigns (test_call 1 100) ''m'' [7] 1 test_genesis)"

definition test_signed2 :: State where
  "test_signed2 = snd (CheckConsensusSigns (test_call 2 100) ''m'' [7] 2 test_signed1)"

text \<open>
  The third run continued: member 3 signs as well, member 1 proposes C, seven peers with
  start height 3000, and members 2 and 3 vote for it, which makes C the current epoch.
\<close>

definition test_signed3 :: State where
  "test_signed3 = snd (CheckConsensusSigns (test_call 3 100) ''m'' [7] 3 test_signed2)"

definition test_inputC :: MethodProposeInput where
  "test_inputC = \<lparr>in_StartHeight = 3000, in_Peers = map test_peer [1, 2, 3, 4, 5, 6, 7]\<rparr>"

definition test_hashC :: hash where
  "test_hashC = EpochHash 2 (map test_peer [1, 2, 3, 4, 5, 6, 7]) 3000 1"

definition test_grown :: State where
  "test_grown =
     snd (Vote (test_call 3 102) (Some (test_vote test_hashC))
       (snd (Vote (test_call 2 101) (Some (test_vote test_hashC))
         (snd (Propose test_derive (test_call 1 100) (Some test_inputC) test_signed3)))))"

text \<open>
  The first run continued after B has passed: member 1 proposes D for epoch id 3.
\<close>

definition test_inputD :: MethodProposeInput where
  "test_inputD = \<lparr>in_StartHeight = 5000, in_Peers = map test_peer [1, 2, 3, 4]\<rparr>"

definition test_later :: State where
  "test_later = snd (Propose test_derive (test_call 1 104) (Some test_inputD) test_passedB)"

text \<open>
  A fourth run, from a first epoch with the single member 1: member 1 proposes A.
\<close>

definition test_epochSolo :: EpochInfo where
  "test_epochSolo = \<lparr>ID = 1, Peers = map test_peer [1], StartHeight = 0,
                      Proposer = 0, Status = ProposalStatusPassed\<rparr>"

definition test_soloProposed :: State where
  "test_soloProposed =
     snd (Propose test_derive (test_call 1 100) (Some test_inputA) (genesisState test_epochSolo))"

section \<open>Evaluation of the scenario\<close>

lemmas prims =
  getEpoch_def GetCurrentEpoch_def storeEpoch_def delEpoch_def storeCurrentEpochHash_def
  storeEpochProof_def getEpochProof_def getProposals_def findProposal_def checkProposal_def
  storeProposal_def delProposal_def proposalsNum_def voteSize_def storeVote_def
  deleteVote_def clearVotes_def findVoteTo_def storeVoteTo_def delVoteTo_def getSign_def
  storeSign_def findSigner_def getSignerSize_def storeSigner_def emitEventProposed_def
  emitEventVoted_def emitEpochChange_def emitConsensusSign_def feedSend_def

lemmas helpers =
  QuorumSize_def quorum_size_def MemberList_def checkAuthority_def checkPeer_def
  OldMemberNum_def sortPeers_def EpochInfo_Hash_def ConsensusSign_Hash_def
  MinEpochValidPeriod_def DefaultEpochValidPeriod_def MaxEpochValidPeriod_def
  MinProposalPeersLen_def MaxProposalPeersLen_def MaxProposalNumPerEpoch_def
  MinVoteEffectivePeriod_def

lemmas tests =
  test_derive_def test_peer_def test_epoch1_def test_genesis_def test_call_def
  test_inputA_def test_hashA_def test_inputB_def test_hashB_def test_vote_def

lemmas runs =
  test_proposed_def test_votedA_def test_switched_def test_passedB_def

lemmas ops =
  Propose_def Vote_def recordVote_def changeEpoch_def dirtyJob_def delVoteToAll_def
  CheckConsensusSigns_def checkSigner_def Let_def

section \<open>Properties of the cleanup\<close>

lemma foldl_delVoteTo_fields [simp]:
  "current_epoch_hash (foldl (\<lambda>st peer. delVoteTo st i (Address peer)) s ps) = current_epoch_hash s"
  "epochs (foldl (\<lambda>st peer. delVoteTo st i (Address peer)) s ps) = epochs s"
  "epoch_proofs (foldl (\<lambda>st peer. delVoteTo st i (Address peer)) s ps) = epoch_proofs s"
  "proposals (foldl (\<lambda>st peer. delVoteTo st i (Address peer)) s ps) = proposals s"
  "votes (foldl (\<lambda>st peer. delVoteTo st i (Address peer)) s ps) = votes s"
  "signs (foldl (\<lambda>st peer. delVoteTo st i (Address peer)) s ps) = signs s"
  "signers (foldl (\<lambda>st peer. delVoteTo st i (Address peer)) s ps) = signers s"
  "event_logs (foldl (\<lambda>st peer. delVoteTo st i (Address peer)) s ps) = event_logs s"
  "epochChangeFeed (foldl (\<lambda>st peer. delVoteTo st i (Address peer)) s ps) = epochChangeFeed s"
  by (induction ps arbitrary: s; simp add: delVoteTo_def)+

lemma foldl_delVoteTo_vote_to:
  "vote_to (foldl (\<lambda>st peer. delVoteTo st i (Address peer)) s ps) (j, a)
     = (if j = i \<and> a \<in> Address ` set ps then None else vote_to s (j, a))"
  by (induction ps arbitrary: s) (auto simp add: delVoteTo_def)

lemma delVoteToAll_fields [simp]:
  "current_epoch_hash (delVoteToAll l i s) = current_epoch_hash s"
  "epochs (delVoteToAll l i s) = epochs s"
  "epoch_proofs (delVoteToAll l i s) = epoch_proofs s"
  "proposals (delVoteToAll l i s) = proposals s"
  "votes (delVoteToAll l i s) = votes s"
  "signs (delVoteToAll l i s) = signs s"
  "signers (delVoteToAll l i s) = signers s"
  "event_logs (delVoteToAll l i s) = event_logs s"
  "epochChangeFeed (delVoteToAll l i s) = epochChangeFeed s"
  by (simp_all add: delVoteToAll_def split: option.split)

lemma delVoteToAll_vote_to:
  "vote_to (delVoteToAll l i s) (j, a) =
     (case l of None \<Rightarrow> vote_to s (j, a)
      | Some e \<Rightarrow> if j = i \<and> a \<in> set (MemberList e) then None else vote_to s (j, a))"
  by (simp add: delVoteToAll_def MemberList_def foldl_delVoteTo_vote_to split: option.split)

lemma dirtyJob_loop_fields [simp]:
  "current_epoch_hash (dirtyJob_loop l cur vs s) = current_epoch_hash s"
  "epoch_proofs (dirtyJob_loop l cur vs s) = epoch_proofs s"
  "signs (dirtyJob_loop l cur vs s) = signs s"
  "signers (dirtyJob_loop l cur vs s) = signers s"
  "event_logs (dirtyJob_loop l cur vs s) = event_logs s"
  "epochChangeFeed (dirtyJob_loop l cur vs s) = epochChangeFeed s"
  by (induction vs arbitrary: s;
      simp add: Let_def delEpoch_def delProposal_def clearVotes_def)+

lemma dirtyJob_loop_epochs:
  "epochs (dirtyJob_loop l cur vs s) h =
     (if h \<in> set vs \<and> h \<noteq> EpochInfo_Hash cur then None else epochs s h)"
  by (induction vs arbitrary: s)
     (auto simp add: Let_def delEpoch_def delProposal_def clearVotes_def)

lemma dirtyJob_loop_votes:
  "votes (dirtyJob_loop l cur vs s) h =
     (if h \<in> set vs \<and> h \<noteq> EpochInfo_Hash cur then [] else votes s h)"
  by (induction vs arbitrary: s)
     (auto simp add: Let_def delEpoch_def delProposal_def clearVotes_def)

lemma dirtyJob_loop_proposals_other:
  "i \<noteq> ID cur \<Longrightarrow> proposals (dirtyJob_loop l cur vs s) i = proposals s i"
  by (induction vs arbitrary: s)
     (auto simp add: Let_def delEpoch_def delProposal_def clearVotes_def)

lemma dirtyJob_loop_proposals_same:
  "proposals (dirtyJob_loop l cur vs s) (ID cur) =
     filter (\<lambda>h. h \<notin> set vs \<or> h = EpochInfo_Hash cur) (proposals s (ID cur))"
proof (induction vs arbitrary: s)
  case Nil
  show ?case by simp
next
  case (Cons v vs)
  show ?case
  proof (cases "v = EpochInfo_Hash cur")
    case True
    then show ?thesis
      by (auto simp add: Cons intro!: filter_cong)
  next
    case False
    then show ?thesis
      by (auto simp add: Cons Let_def delEpoch_def delProposal_def clearVotes_def
            removeAll_filter_not_eq intro!: filter_cong)
  qed
qed

lemma dirtyJob_loop_vote_to:
  "vote_to (dirtyJob_loop l cur vs s) (j, a) =
     (if list_ex (\<lambda>v. v \<noteq> EpochInfo_Hash cur) vs then vote_to (delVoteToAll l (ID cur) s) (j, a)
      else vote_to s (j, a))"
  by (induction vs arbitrary: s)
     (auto simp add: Let_def delEpoch_def delProposal_def clearVotes_def delVoteToAll_vote_to
        split: option.splits)

section \<open>The shape of a successful vote\<close>

lemma Hash_Status [simp]:
  "EpochInfo_Hash (ep\<lparr>Status := st\<rparr>) = EpochInfo_Hash ep"
  by (simp add: EpochInfo_Hash_def)

lemma MemberList_Status [simp]:
  "MemberList (ep\<lparr>Status := st\<rparr>) = MemberList ep"
  by (simp add: MemberList_def)

lemma changeEpoch_success:
  assumes "changeEpoch ctx s cur ep = (Inr (), s')"
  shows "s' = changedState cur ep s"
  using assms
  by (simp add: changeEpoch_def changedState_def Let_def storeEpoch_def
        storeCurrentEpochHash_def storeEpochProof_def emitEpochChange_def
      split: if_splits)

lemma recordVote_success:
  assumes "recordVote ctx input cur ep s = (Inr (), s')"
  shows "s' = s \<or>
    (if voteSize (votedState ctx input cur s) (in_Hash input) = QuorumSize cur
     then s' = changedState cur ep (votedState ctx input cur s)
     else s' = votedState ctx input cur s)"
proof (cases "findVoteTo s (in_EpochID input) (TxOrigin ctx) = EmptyHash")
  case True
  then show ?thesis
    using assms
    by (auto simp add: recordVote_def votedState_def Let_def deleteVote_def storeVote_def
          storeVoteTo_def delVoteTo_def emitEventVoted_def voteSize_def
        dest: changeEpoch_success split: if_splits)
next
  case False
  then show ?thesis
    using assms
    by (auto simp add: recordVote_def votedState_def Let_def deleteVote_def storeVote_def
          storeVoteTo_def delVoteTo_def emitEventVoted_def voteSize_def
        dest: changeEpoch_success split: if_splits)
qed

lemma Status_not_Passed: "(st \<noteq> ProposalStatusPassed) = (st = ProposalStatusPropose)"
  by (cases st) simp_all

lemma Vote_success:
  assumes "Vote ctx (Some input) s = (Inr (), s')" and "GetCurrentEpoch s = Some cur"
  shows "\<exists>ep. checkAuthority (TxOrigin ctx) (Caller ctx) cur
     \<and> in_EpochID input = ID cur + 1
     \<and> findProposal s (in_EpochID input) (in_Hash input)
     \<and> getEpoch s (in_Hash input) = Some ep
     \<and> Status ep = ProposalStatusPropose
     \<and> ID ep = in_EpochID input
     \<and> EpochInfo_Hash ep = in_Hash input
     \<and> BlockHeight ctx + MinVoteEffectivePeriod < StartHeight ep
     \<and> (if QuorumSize cur \<le> voteSize s (in_Hash input) then s' = s
         else recordVote ctx input cur ep s = (Inr (), s'))"
proof (cases "getEpoch s (in_Hash input)")
  case None
  then show ?thesis
    using assms by (simp add: Vote_def Let_def split: if_splits)
next
  case (Some ep)
  then show ?thesis
    using assms
    by (simp add: Vote_def Let_def Status_not_Passed split: if_splits)
qed

section \<open>Results of the calls\<close>

lemma changeEpoch_result:
  "fst (changeEpoch ctx s cur ep) \<in> {Inr (), Inl ErrStorage, Inl ErrEmitLog}"
  by (simp add: changeEpoch_def Let_def storeEpoch_def emitEpochChange_def)

lemma recordVote_result:
  "fst (recordVote ctx input cur ep s) \<in> {Inr (), Inl ErrStorage, Inl ErrEmitLog}"
  using changeEpoch_result
  by (simp add: recordVote_def Let_def deleteVote_def storeVote_def emitEventVoted_def)

lemma recordVote_result':
  "fst (recordVote ctx input cur ep s) = Inr ()
   \<or> fst (recordVote ctx input cur ep s) = Inl ErrStorage
   \<or> fst (recordVote ctx input cur ep s) = Inl ErrEmitLog"
  using recordVote_result [of ctx input cur ep s] by simp

lemma Vote_result:
  "(case Vote ctx payload s of (r, s') \<Rightarrow>
      r \<in> {Inr (), Inl ErrStorage, Inl ErrEmitLog} \<or> s' = s)"
  apply (simp add: Vote_def Let_def split_beta split: option.split)
  apply (intro allI impI conjI)
  apply (metis recordVote_result')
  done

lemma Propose_result:
  "(case Propose derive ctx payload s of (r, s') \<Rightarrow>
      r \<in> {Inr (), Inl ErrStorage, Inl ErrEmitLog} \<or> s' = s)"
  by (simp add: Propose_def Let_def storeEpoch_def storeProposal_def storeVote_def
        emitEventProposed_def split: option.split)

lemma Vote_error_unchanged:
  assumes "fst (Vote ctx payload s) = Inl e" and "e \<noteq> ErrStorage" and "e \<noteq> ErrEmitLog"
  shows "snd (Vote ctx payload s) = s"
  using assms Vote_result [where ctx = ctx and payload = payload and s = s]
  by (auto simp add: split_beta)

lemma Propose_error_unchanged:
  assumes "fst (Propose derive ctx payload s) = Inl e" and "e \<noteq> ErrStorage" and "e \<noteq> ErrEmitLog"
  shows "snd (Propose derive ctx payload s) = s"
  using assms Propose_result [where derive = derive and ctx = ctx and payload = payload and s = s]
  by (auto simp add: split_beta)

section \<open>The states left by a successful vote\<close>

lemma votedState_fields [simp]:
  "current_epoch_hash (votedState ctx input cur s) = current_epoch_hash s"
  "epochs (votedState ctx input cur s) = epochs s"
  "epoch_proofs (votedState ctx input cur s) = epoch_proofs s"
  "proposals (votedState ctx input cur s) = proposals s"
  "signs (votedState ctx input cur s) = signs s"
  "signers (votedState ctx input cur s) = signers s"
  "epochChangeFeed (votedState ctx input cur s) = epochChangeFeed s"
  by (simp_all add: votedState_def Let_def)

lemma votedState_votes:
  "votes (votedState ctx input cur s) x =
     (if x = in_Hash input
      then List.insert (TxOrigin ctx)
             (if findVoteTo s (in_EpochID input) (TxOrigin ctx) \<noteq> EmptyHash
              then removeAll (TxOrigin ctx) (votes s x) else votes s x)
      else votes s x)"
  by (simp add: votedState_def Let_def)

lemma votedState_voteSize_le:
  "voteSize (votedState ctx input cur s) (in_Hash input) \<le> Suc (voteSize s (in_Hash input))"
proof -
  have "length (removeAll (TxOrigin ctx) (votes s (in_Hash input)))
          \<le> length (votes s (in_Hash input))"
    by (simp add: removeAll_filter_not_eq)
  then show ?thesis
    by (simp add: voteSize_def votedState_votes List.insert_def)
qed

lemma changedState_fields [simp]:
  "current_epoch_hash (changedState cur ep s) = Some (EpochInfo_Hash ep)"
  "epoch_proofs (changedState cur ep s) = (epoch_proofs s)(ID ep \<mapsto> EpochInfo_Hash ep)"
  "signs (changedState cur ep s) = signs s"
  "signers (changedState cur ep s) = signers s"
  "epochChangeFeed (changedState cur ep s) =
     epochChangeFeed s @ [\<lparr>ev_EpochID = StartHeight ep, ev_StartHeight = StartHeight ep,
                            ev_Validators = MemberList ep, ev_Hash = EpochInfo_Hash ep\<rparr>]"
  by (simp_all add: changedState_def Let_def dirtyJob_def feedSend_def)

lemma changedState_epochs:
  "epochs (changedState cur ep s) x =
     (if x = EpochInfo_Hash ep then Some (ep\<lparr>Status := ProposalStatusPassed\<rparr>)
      else if x \<in> set (proposals s (ID ep)) then None else epochs s x)"
  by (simp add: changedState_def Let_def dirtyJob_def feedSend_def dirtyJob_loop_epochs
        getProposals_def)

lemma changedState_votes:
  "votes (changedState cur ep s) x =
     (if x \<in> set (proposals s (ID ep)) \<and> x \<noteq> EpochInfo_Hash ep then [] else votes s x)"
  by (simp add: changedState_def Let_def dirtyJob_def feedSend_def dirtyJob_loop_votes
        getProposals_def)

lemma changedState_proposals:
  "proposals (changedState cur ep s) i =
     (if i = ID ep then filter (\<lambda>x. x = EpochInfo_Hash ep) (proposals s i)
      else proposals s i)"
proof (cases "i = ID ep")
  case True
  have "filter (\<lambda>h. h \<notin> set (proposals s (ID ep)) \<or> h = EpochInfo_Hash ep) (proposals s (ID ep))
        = filter (\<lambda>x. x = EpochInfo_Hash ep) (proposals s (ID ep))"
    by (rule filter_cong) auto
  with True show ?thesis
    using dirtyJob_loop_proposals_same [of "Some cur" "ep\<lparr>Status := ProposalStatusPassed\<rparr>"]
    by (simp add: changedState_def Let_def dirtyJob_def feedSend_def getProposals_def)
next
  case False
  then show ?thesis
    using dirtyJob_loop_proposals_other [of i "ep\<lparr>Status := ProposalStatusPassed\<rparr>"]
    by (simp add: changedState_def Let_def dirtyJob_def feedSend_def getProposals_def)
qed

lemma GetCurrentEpoch_changedState:
  "GetCurrentEpoch (changedState cur ep s) = Some (ep\<lparr>Status := ProposalStatusPassed\<rparr>)"
  by (simp add: GetCurrentEpoch_def getEpoch_def changedState_epochs)

lemma GetCurrentEpoch_votedState [simp]:
  "GetCurrentEpoch (votedState ctx input cur s) = GetCurrentEpoch s"
  by (simp add: GetCurrentEpoch_def getEpoch_def split: option.split)

text \<open>The three outcomes of a successful vote.\<close>

lemma Vote_success_cases:
  assumes ok: "Vote ctx (Some input) s = (Inr (), s')" and cur: "GetCurrentEpoch s = Some cur"
  shows "\<exists>ep. checkAuthority (TxOrigin ctx) (Caller ctx) cur
     \<and> in_EpochID input = ID cur + 1
     \<and> findProposal s (in_EpochID input) (in_Hash input)
     \<and> getEpoch s (in_Hash input) = Some ep
     \<and> Status ep = ProposalStatusPropose
     \<and> ID ep = in_EpochID input
     \<and> EpochInfo_Hash ep = in_Hash input
     \<and> (s' = s
        \<or> voteSize s (in_Hash input) < QuorumSize cur
          \<and> voteSize (votedState ctx input cur s) (in_Hash input) \<noteq> QuorumSize cur
          \<and> s' = votedState ctx input cur s
        \<or> voteSize s (in_Hash input) < QuorumSize cur
          \<and> voteSize (votedState ctx input cur s) (in_Hash input) = QuorumSize cur
          \<and> s' = changedState cur ep (votedState ctx input cur s))"
proof -
  from Vote_success [OF ok cur] obtain ep where
    pre: "checkAuthority (TxOrigin ctx) (Caller ctx) cur"
      "in_EpochID input = ID cur + 1"
      "findProposal s (in_EpochID input) (in_Hash input)"
      "getEpoch s (in_Hash input) = Some ep"
      "Status ep = ProposalStatusPropose"
      "ID ep = in_EpochID input"
      "EpochInfo_Hash ep = in_Hash input"
    and rest: "if QuorumSize cur \<le> voteSize s (in_Hash input) then s' = s
         else recordVote ctx input cur ep s = (Inr (), s')"
    by blast
  show ?thesis
  proof (cases "QuorumSize cur \<le> voteSize s (in_Hash input)")
    case True
    with rest pre show ?thesis by simp
  next
    case False
    with rest have "recordVote ctx input cur ep s = (Inr (), s')" by simp
    from recordVote_success [OF this] False pre show ?thesis
      by (auto split: if_splits)
  qed
qed

section \<open>The invariant of the reachable states\<close>

lemma quorum_size_pos: "1 \<le> quorum_size n"
  by (simp add: quorum_size_def)

lemma quorum_size_ge2: "2 \<le> n \<Longrightarrow> 2 \<le> quorum_size n"
  by (simp add: quorum_size_def)

lemma unat_succ_u64: "unat (x::u64) + 1 < 2 ^ 64 \<Longrightarrow> unat (x + 1) = unat x + 1"
  by (simp add: unat_word_ariths)

lemma stateInvI:
  assumes "GetCurrentEpoch s = Some cur"
    and "unat (ID cur) \<le> unat (ID g) + n"
    and "\<And>h e. epochs s h = Some e \<Longrightarrow> EpochInfo_Hash e = h \<and> 2 \<le> length (Peers e)"
    and "\<And>h. votes s h \<noteq> [] \<Longrightarrow>
             h \<in> set (proposals s (ID cur + 1))
             \<or> (\<exists>e. epochs s h = Some e \<and> Status e = ProposalStatusPassed
                    \<and> unat (ID e) \<le> unat (ID cur))"
    and "\<And>h. QuorumSize cur \<le> voteSize s h \<Longrightarrow>
             (\<exists>e. epochs s h = Some e \<and> Status e = ProposalStatusPassed)"
  shows "stateInv g n s"
  using assms by (simp add: stateInv_def)

lemma stateInvD:
  assumes "stateInv g n s"
  shows "\<exists>cur. GetCurrentEpoch s = Some cur
    \<and> unat (ID cur) \<le> unat (ID g) + n
    \<and> (\<forall>h e. epochs s h = Some e \<longrightarrow> EpochInfo_Hash e = h \<and> 2 \<le> length (Peers e))
    \<and> (\<forall>h. votes s h \<noteq> [] \<longrightarrow>
             h \<in> set (proposals s (ID cur + 1))
             \<or> (\<exists>e. epochs s h = Some e \<and> Status e = ProposalStatusPassed
                    \<and> unat (ID e) \<le> unat (ID cur)))
    \<and> (\<forall>h. QuorumSize cur \<le> voteSize s h \<longrightarrow>
             (\<exists>e. epochs s h = Some e \<and> Status e = ProposalStatusPassed))"
  using assms by (simp add: stateInv_def split: option.splits)

lemma stateInv_genesis:
  assumes "2 \<le> length (Peers g)"
  shows "stateInv g 0 (genesisState g)"
proof (rule stateInvI [where cur = g])
  show "GetCurrentEpoch (genesisState g) = Some g"
    by (simp add: GetCurrentEpoch_def getEpoch_def genesisState_def)
  show "unat (ID g) \<le> unat (ID g) + 0" by simp
  show "EpochInfo_Hash e = h \<and> 2 \<le> length (Peers e)"
    if "epochs (genesisState g) h = Some e" for h e
    using that assms by (auto simp add: genesisState_def split: if_splits)
  show "h \<in> set (proposals (genesisState g) (ID g + 1))
             \<or> (\<exists>e. epochs (genesisState g) h = Some e \<and> Status e = ProposalStatusPassed
                    \<and> unat (ID e) \<le> unat (ID g))"
    if "votes (genesisState g) h \<noteq> []" for h
    using that by (simp add: genesisState_def)
  show "\<exists>e. epochs (genesisState g) h = Some e \<and> Status e = ProposalStatusPassed"
    if "QuorumSize g \<le> voteSize (genesisState g) h" for h
    using that quorum_size_pos [of "length (Peers g)"]
    by (simp add: genesisState_def voteSize_def QuorumSize_def)
qed

lemma CheckConsensusSigns_fields:
  "current_epoch_hash (snd (CheckConsensusSigns ctx method input signer s)) = current_epoch_hash s
   \<and> epochs (snd (CheckConsensusSigns ctx method input signer s)) = epochs s
   \<and> proposals (snd (CheckConsensusSigns ctx method input signer s)) = proposals s
   \<and> votes (snd (CheckConsensusSigns ctx method input signer s)) = votes s"
proof -
  have c: "current_epoch_hash (snd (checkSigner ctx ep sg signer t)) = current_epoch_hash t
   \<and> epochs (snd (checkSigner ctx ep sg signer t)) = epochs t
   \<and> proposals (snd (checkSigner ctx ep sg signer t)) = proposals t
   \<and> votes (snd (checkSigner ctx ep sg signer t)) = votes t" for ep sg t
    by (simp add: checkSigner_def Let_def storeSigner_def emitConsensusSign_def)
  show ?thesis
    by (simp add: CheckConsensusSigns_def Let_def getSign_def storeSign_def c
          split: option.split lookup.split)
qed

lemma stateInv_CheckConsensusSigns:
  assumes "stateInv g n s"
  shows "stateInv g (Suc n) (snd (CheckConsensusSigns ctx meth input signer s))"
  using assms CheckConsensusSigns_fields [of ctx meth input signer s]
  by (auto simp add: stateInv_def GetCurrentEpoch_def getEpoch_def voteSize_def
        split: option.splits)

lemma Propose_success:
  assumes ok: "Propose derive ctx payload s = (Inr (), s')"
    and cur: "GetCurrentEpoch s = Some cur"
  shows "\<exists>ep. ID ep = ID cur + 1 \<and> 4 \<le> length (Peers ep)
     \<and> Status ep = ProposalStatusPropose
     \<and> EpochInfo_Hash ep \<notin> set (proposals s (ID cur + 1))
     \<and> current_epoch_hash s' = current_epoch_hash s
     \<and> epochs s' = (epochs s)(EpochInfo_Hash ep \<mapsto> ep)
     \<and> proposals s' = (proposals s)(ID cur + 1 := proposals s (ID cur + 1) @ [EpochInfo_Hash ep])
     \<and> votes s' = (votes s)(EpochInfo_Hash ep :=
                      List.insert (TxOrigin ctx) (votes s (EpochInfo_Hash ep)))"
proof (cases payload)
  case None
  with ok cur show ?thesis
    by (simp add: Propose_def Let_def split: if_splits)
next
  case (Some input)
  let ?sh = "if 0 < in_StartHeight input then in_StartHeight input
             else BlockHeight ctx + DefaultEpochValidPeriod"
  let ?ep = "\<lparr>ID = ID cur + 1, Peers = sortPeers (in_Peers input), StartHeight = ?sh,
               Proposer = TxOrigin ctx, Status = ProposalStatusPropose\<rparr>"
  have len: "MinProposalPeersLen \<le> length (in_Peers input)"
    using ok cur Some by (simp add: Propose_def Let_def split: if_splits)
  have nodup: "\<not> checkProposal s (ID cur + 1) (EpochInfo_Hash ?ep)"
    using ok cur Some by (simp add: Propose_def Let_def split: if_splits)
  have s': "s' = s\<lparr>epochs := (epochs s)(EpochInfo_Hash ?ep \<mapsto> ?ep),
        proposals := (proposals s)(ID cur + 1 := proposals s (ID cur + 1) @ [EpochInfo_Hash ?ep]),
        votes := (votes s)(EpochInfo_Hash ?ep :=
                      List.insert (TxOrigin ctx) (votes s (EpochInfo_Hash ?ep))),
        vote_to := (vote_to s)((ID cur + 1, TxOrigin ctx) \<mapsto> EpochInfo_Hash ?ep),
        event_logs := event_logs s @ [EventProposed ?ep]\<rparr>"
    using ok cur Some
    by (simp add: Propose_def Let_def storeEpoch_def storeProposal_def storeVote_def
          storeVoteTo_def emitEventProposed_def split: if_splits)
  show ?thesis
    apply (rule exI [where x = ?ep])
    using len nodup
    apply (simp add: s' sortPeers_def MinProposalPeersLen_def checkProposal_def
        findProposal_def getProposals_def)
    done
qed

lemma Hash_eq_ID: "EpochInfo_Hash a = EpochInfo_Hash b \<Longrightarrow> ID a = ID b"
  by (simp add: EpochInfo_Hash_def)

lemma stateInv_mono:
  assumes "stateInv g n s"
  shows "stateInv g (Suc n) s"
  using assms by (auto simp add: stateInv_def split: option.splits)

lemma stateInv_Propose:
  assumes inv: "stateInv g n s"
    and bound: "unat (ID g) + Suc n < 2 ^ 64"
    and ok: "Propose derive ctx payload s = (Inr (), s')"
  shows "stateInv g (Suc n) s'"
proof -
  from stateInvD [OF inv] obtain cur where
    cur: "GetCurrentEpoch s = Some cur"
    and idb: "unat (ID cur) \<le> unat (ID g) + n"
    and keys: "\<And>h e. epochs s h = Some e \<Longrightarrow> EpochInfo_Hash e = h \<and> 2 \<le> length (Peers e)"
    and owner: "\<And>h. votes s h \<noteq> [] \<Longrightarrow>
             h \<in> set (proposals s (ID cur + 1))
             \<or> (\<exists>e. epochs s h = Some e \<and> Status e = ProposalStatusPassed
                    \<and> unat (ID e) \<le> unat (ID cur))"
    and passed: "\<And>h. QuorumSize cur \<le> voteSize s h \<Longrightarrow>
             (\<exists>e. epochs s h = Some e \<and> Status e = ProposalStatusPassed)"
    by blast
  from Propose_success [OF ok cur] obtain ep where
    ep: "ID ep = ID cur + 1" "4 \<le> length (Peers ep)" "Status ep = ProposalStatusPropose"
      "EpochInfo_Hash ep \<notin> set (proposals s (ID cur + 1))"
    and s': "current_epoch_hash s' = current_epoch_hash s"
      "epochs s' = (epochs s)(EpochInfo_Hash ep \<mapsto> ep)"
      "proposals s' = (proposals s)(ID cur + 1 := proposals s (ID cur + 1) @ [EpochInfo_Hash ep])"
      "votes s' = (votes s)(EpochInfo_Hash ep :=
                      List.insert (TxOrigin ctx) (votes s (EpochInfo_Hash ep)))"
    by blast
  have succ: "unat (ID cur + 1) = unat (ID cur) + 1"
    using idb bound by (intro unat_succ_u64) simp
  from cur obtain c where c: "current_epoch_hash s = Some c" "epochs s c = Some cur"
    by (auto simp add: GetCurrentEpoch_def getEpoch_def split: option.splits)
  have "EpochInfo_Hash cur = c" using keys [OF c(2)] by simp
  then have "c \<noteq> EpochInfo_Hash ep"
    using Hash_eq_ID [of cur ep] ep(1) by auto
  then have cur': "GetCurrentEpoch s' = Some cur"
    using c by (simp add: GetCurrentEpoch_def getEpoch_def s')
  have fresh: "votes s (EpochInfo_Hash ep) = []"
  proof (rule ccontr)
    assume "votes s (EpochInfo_Hash ep) \<noteq> []"
    from owner [OF this] ep(4) obtain e0 where
      e0: "epochs s (EpochInfo_Hash ep) = Some e0" "unat (ID e0) \<le> unat (ID cur)"
      by blast
    from keys [OF e0(1)] have "ID e0 = ID ep" by (intro Hash_eq_ID) simp
    with e0(2) ep(1) succ show False by simp
  qed
  have q2: "2 \<le> QuorumSize cur"
    using keys [OF c(2)] by (simp add: QuorumSize_def quorum_size_ge2)
  show ?thesis
  proof (rule stateInvI [OF cur'])
    show "unat (ID cur) \<le> unat (ID g) + Suc n" using idb by simp
    show "EpochInfo_Hash e = h \<and> 2 \<le> length (Peers e)" if "epochs s' h = Some e" for h e
      using that keys ep(2) by (auto simp add: s' split: if_splits)
    show "h \<in> set (proposals s' (ID cur + 1))
             \<or> (\<exists>e. epochs s' h = Some e \<and> Status e = ProposalStatusPassed
                    \<and> unat (ID e) \<le> unat (ID cur))"
      if "votes s' h \<noteq> []" for h
    proof (cases "h = EpochInfo_Hash ep")
      case True
      then show ?thesis by (simp add: s')
    next
      case False
      with that have "votes s h \<noteq> []" by (simp add: s')
      from owner [OF this] False show ?thesis by (auto simp add: s')
    qed
    show "\<exists>e. epochs s' h = Some e \<and> Status e = ProposalStatusPassed"
      if "QuorumSize cur \<le> voteSize s' h" for h
    proof (cases "h = EpochInfo_Hash ep")
      case True
      with that fresh q2 show ?thesis by (simp add: s' voteSize_def)
    next
      case False
      with that have "QuorumSize cur \<le> voteSize s h" by (simp add: s' voteSize_def)
      from passed [OF this] False show ?thesis by (simp add: s')
    qed
  qed
qed

lemma stateInv_Vote:
  assumes inv: "stateInv g n s"
    and bound: "unat (ID g) + Suc n < 2 ^ 64"
    and ok: "Vote ctx payload s = (Inr (), s')"
  shows "stateInv g (Suc n) s'"
proof -
  from stateInvD [OF inv] obtain cur where
    cur: "GetCurrentEpoch s = Some cur"
    and idb: "unat (ID cur) \<le> unat (ID g) + n"
    and keys: "\<And>h e. epochs s h = Some e \<Longrightarrow> EpochInfo_Hash e = h \<and> 2 \<le> length (Peers e)"
    and owner: "\<And>h. votes s h \<noteq> [] \<Longrightarrow>
             h \<in> set (proposals s (ID cur + 1))
             \<or> (\<exists>e. epochs s h = Some e \<and> Status e = ProposalStatusPassed
                    \<and> unat (ID e) \<le> unat (ID cur))"
    and passed: "\<And>h. QuorumSize cur \<le> voteSize s h \<Longrightarrow>
             (\<exists>e. epochs s h = Some e \<and> Status e = ProposalStatusPassed)"
    by blast
  from ok cur obtain input where input: "payload = Some input"
    by (cases payload) (auto simp add: Vote_def Let_def split: if_splits)
  let ?h = "in_Hash input"
  let ?v = "votedState ctx input cur s"
  from Vote_success_cases [OF ok [unfolded input] cur] obtain ep where
    idx: "in_EpochID input = ID cur + 1" "findProposal s (in_EpochID input) ?h"
    and ep: "getEpoch s ?h = Some ep" "ID ep = in_EpochID input" "EpochInfo_Hash ep = ?h"
    and cases: "s' = s
        \<or> voteSize s ?h < QuorumSize cur \<and> voteSize ?v ?h \<noteq> QuorumSize cur \<and> s' = ?v
        \<or> voteSize s ?h < QuorumSize cur \<and> voteSize ?v ?h = QuorumSize cur
            \<and> s' = changedState cur ep ?v"
    by blast
  have indexed: "?h \<in> set (proposals s (ID cur + 1))"
    using idx by (simp add: findProposal_def getProposals_def)
  have succ: "unat (ID cur + 1) = unat (ID cur) + 1"
    using idb bound by (intro unat_succ_u64) simp
  from cases consider
      (same) "s' = s"
    | (voted) "voteSize s ?h < QuorumSize cur" "voteSize ?v ?h \<noteq> QuorumSize cur" "s' = ?v"
    | (changed) "voteSize s ?h < QuorumSize cur" "voteSize ?v ?h = QuorumSize cur"
        "s' = changedState cur ep ?v"
    by blast
  then show ?thesis
  proof cases
    case same
    with inv show ?thesis by (simp add: stateInv_mono)
  next
    case voted
    have below: "voteSize ?v ?h < QuorumSize cur"
      using voted(1,2) votedState_voteSize_le [of ctx input cur s] by simp
    have cur': "GetCurrentEpoch s' = Some cur"
      using cur by (simp add: voted(3))
    show ?thesis
    proof (rule stateInvI [OF cur'])
      show "unat (ID cur) \<le> unat (ID g) + Suc n" using idb by simp
      show "EpochInfo_Hash e = h \<and> 2 \<le> length (Peers e)" if "epochs s' h = Some e" for h e
        using that keys by (simp add: voted(3))
      show "h \<in> set (proposals s' (ID cur + 1))
             \<or> (\<exists>e. epochs s' h = Some e \<and> Status e = ProposalStatusPassed
                    \<and> unat (ID e) \<le> unat (ID cur))"
        if "votes s' h \<noteq> []" for h
      proof (cases "h = ?h")
        case True
        with indexed show ?thesis by (simp add: voted(3))
      next
        case False
        with that have "votes s h \<noteq> []" by (simp add: voted(3) votedState_votes)
        from owner [OF this] show ?thesis by (simp add: voted(3))
      qed
      show "\<exists>e. epochs s' h = Some e \<and> Status e = ProposalStatusPassed"
        if "QuorumSize cur \<le> voteSize s' h" for h
      proof (cases "h = ?h")
        case True
        with that below show ?thesis by (simp add: voted(3))
      next
        case False
        with that have "QuorumSize cur \<le> voteSize s h"
          by (simp add: voted(3) voteSize_def votedState_votes)
        from passed [OF this] show ?thesis by (simp add: voted(3))
      qed
    qed
  next
    case changed
    let ?w = "ep\<lparr>Status := ProposalStatusPassed\<rparr>"
    have cur': "GetCurrentEpoch s' = Some ?w"
      by (simp add: changed(3) GetCurrentEpoch_changedState)
    have idw: "ID ?w = ID cur + 1" using ep(2) idx(1) by simp
    have stored: "epochs s ?h = Some ep" using ep(1) by (simp add: getEpoch_def)
    have old: "\<exists>e. epochs s' x = Some e \<and> Status e = ProposalStatusPassed
                    \<and> unat (ID e) \<le> unat (ID ?w)"
      if "votes s' x \<noteq> []" for x
    proof (cases "x = ?h")
      case True
      then show ?thesis by (simp add: changed(3) changedState_epochs ep(3))
    next
      case False
      with that have notidx: "x \<notin> set (proposals s (ID cur + 1))"
        and "votes s x \<noteq> []"
        using ep(2,3) idx(1)
        by (auto simp add: changed(3) changedState_votes votedState_votes split: if_splits)
      from owner [OF this(2)] notidx obtain e0 where
        "epochs s x = Some e0" "Status e0 = ProposalStatusPassed" "unat (ID e0) \<le> unat (ID cur)"
        by blast
      with False notidx show ?thesis
        using ep(2,3) idx(1) succ
        by (simp add: changed(3) changedState_epochs)
    qed
    show ?thesis
    proof (rule stateInvI [OF cur'])
      show "unat (ID ?w) \<le> unat (ID g) + Suc n"
        using idb succ by (simp add: idw)
      show "EpochInfo_Hash e = h \<and> 2 \<le> length (Peers e)" if "epochs s' h = Some e" for h e
        using that keys [OF stored] keys [of h e] ep(3)
        by (auto simp add: changed(3) changedState_epochs split: if_splits)
      show "h \<in> set (proposals s' (ID ?w + 1))
             \<or> (\<exists>e. epochs s' h = Some e \<and> Status e = ProposalStatusPassed
                    \<and> unat (ID e) \<le> unat (ID ?w))"
        if "votes s' h \<noteq> []" for h
        using old [OF that] by blast
      show "\<exists>e. epochs s' h = Some e \<and> Status e = ProposalStatusPassed"
        if "QuorumSize ?w \<le> voteSize s' h" for h
      proof -
        have "1 \<le> QuorumSize ?w"
          using quorum_size_pos [of "length (Peers ep)"] by (simp add: QuorumSize_def)
        with that have "votes s' h \<noteq> []" by (auto simp add: voteSize_def)
        from old [OF this] show ?thesis by blast
      qed
    qed
  qed
qed

lemma reach_stateInv:
  assumes "reach derive g n s" and "2 \<le> length (Peers g)" and "unat (ID g) + n < 2 ^ 64"
  shows "stateInv g n s"
  using assms
proof (induction rule: reach.induct)
  case reach_genesis
  then show ?case by (simp add: stateInv_genesis)
next
  case (reach_Propose n s ctx payload s')
  then have "stateInv g n s" by simp
  from stateInv_Propose [OF this reach_Propose.prems(2) reach_Propose.hyps(2)]
  show ?case .
next
  case (reach_Vote n s ctx payload s')
  then have "stateInv g n s" by simp
  from stateInv_Vote [OF this reach_Vote.prems(2) reach_Vote.hyps(2)]
  show ?case .
next
  case (reach_CheckConsensusSigns n s ctx meth input signer b s')
  then have "stateInv g n s" by simp
  from stateInv_CheckConsensusSigns [OF this, of ctx meth input signer]
  show ?case by (simp add: reach_CheckConsensusSigns.hyps(2))
qed

lemma Vote_passed_fails:
  assumes "GetCurrentEpoch s = Some cur"
    and "getEpoch s (in_Hash input) = Some e" and "Status e = ProposalStatusPassed"
  shows "\<exists>err \<in> {ErrInvalidAuthority, ErrInvalidInput, ErrProposalNotExist,
                 ErrProposalPassed}. Vote ctx (Some input) s = (Inl err, s)"
  using assms by (simp add: Vote_def Let_def)

lemma reach_Propose_step:
  assumes "reach derive g n s" and "fst (Propose derive ctx payload s) = Inr ()"
  shows "reach derive g (Suc n) (snd (Propose derive ctx payload s))"
  using assms by (intro reach_Propose [where s = s and ctx = ctx and payload = payload])
    (simp_all add: prod_eq_iff)

lemma reach_Vote_step:
  assumes "reach derive g n s" and "fst (Vote ctx payload s) = Inr ()"
  shows "reach derive g (Suc n) (snd (Vote ctx payload s))"
  using assms by (intro reach_Vote [where s = s and ctx = ctx and payload = payload])
    (simp_all add: prod_eq_iff)

lemma test_genesis_eq: "test_genesis = genesisState test_epoch1"
  by (simp add: test_genesis_def genesisState_def)

lemma reach_test_passedB: "reach test_derive test_epoch1 5 test_passedB"
proof -
  let ?a = "snd (Propose test_derive (test_call 1 100) (Some test_inputA) test_genesis)"
  have r0: "reach test_derive test_epoch1 0 test_genesis"
    by (simp add: test_genesis_eq reach_genesis)
  have "fst (Propose test_derive (test_call 1 100) (Some test_inputA) test_genesis) = Inr ()"
    by (simp add: runs ops prims helpers tests)
  from reach_Propose_step [OF r0 this]
  have r1: "reach test_derive test_epoch1 1 ?a" by simp
  have "fst (Propose test_derive (test_call 2 100) (Some test_inputB) ?a) = Inr ()"
    by (simp add: runs ops prims helpers tests)
  from reach_Propose_step [OF r1 this]
  have r2: "reach test_derive test_epoch1 2 test_proposed"
    by (simp add: test_proposed_def numeral_2_eq_2)
  have "fst (Vote (test_call 3 101) (Some (test_vote test_hashA)) test_proposed) = Inr ()"
    by (simp add: runs ops prims helpers tests)
  from reach_Vote_step [OF r2 this]
  have r3: "reach test_derive test_epoch1 3 test_votedA"
    by (simp add: test_votedA_def numeral_3_eq_3)
  have "fst (Vote (test_call 3 102) (Some (test_vote test_hashB)) test_votedA) = Inr ()"
    by (simp add: runs ops prims helpers tests)
  from reach_Vote_step [OF r3 this]
  have r4: "reach test_derive test_epoch1 4 test_switched"
    by (simp add: test_switched_def eval_nat_numeral)
  have "fst (Vote (test_call 4 103) (Some (test_vote test_hashB)) test_switched) = Inr ()"
    by (simp add: runs ops prims helpers tests)
  from reach_Vote_step [OF r4 this]
  show ?thesis
    by (simp add: test_passedB_def eval_nat_numeral)
qed

section \<open>The second invariant, and what it excludes\<close>

lemma baseInvI:
  assumes "GetCurrentEpoch s = Some cur"
    and "unat (ID cur) \<le> unat (ID g) + n"
    and "\<And>h e. epochs s h = Some e \<Longrightarrow> EpochInfo_Hash e = h"
    and "\<And>i h. h \<in> set (proposals s i) \<Longrightarrow> \<exists>ps sh pr. h = EpochHash i ps sh pr"
    and "\<And>h e. epochs s h = Some e \<Longrightarrow> Status e = ProposalStatusPassed \<Longrightarrow>
             unat (ID e) \<le> unat (ID cur)"
  shows "baseInv g n s"
  using assms by (auto simp add: baseInv_def)

lemma baseInvD:
  assumes "baseInv g n s"
  shows "\<exists>cur. GetCurrentEpoch s = Some cur
    \<and> unat (ID cur) \<le> unat (ID g) + n
    \<and> (\<forall>h e. epochs s h = Some e \<longrightarrow> EpochInfo_Hash e = h)
    \<and> (\<forall>i h. h \<in> set (proposals s i) \<longrightarrow> (\<exists>ps sh pr. h = EpochHash i ps sh pr))
    \<and> (\<forall>h e. epochs s h = Some e \<and> Status e = ProposalStatusPassed \<longrightarrow>
             unat (ID e) \<le> unat (ID cur))"
  using assms by (auto simp add: baseInv_def split: option.splits)

lemma baseInv_genesis: "baseInv g 0 (genesisState g)"
proof (rule baseInvI [where cur = g])
  show "GetCurrentEpoch (genesisState g) = Some g"
    by (simp add: GetCurrentEpoch_def getEpoch_def genesisState_def)
  show "unat (ID g) \<le> unat (ID g) + 0" by simp
  show "EpochInfo_Hash e = h" if "epochs (genesisState g) h = Some e" for h e
    using that by (auto simp add: genesisState_def split: if_splits)
  show "\<exists>ps sh pr. h = EpochHash i ps sh pr" if "h \<in> set (proposals (genesisState g) i)" for i h
    using that by (simp add: genesisState_def)
  show "unat (ID e) \<le> unat (ID g)"
    if "epochs (genesisState g) h = Some e" for h e
    using that by (auto simp add: genesisState_def split: if_splits)
qed

lemma baseInv_CheckConsensusSigns:
  assumes "baseInv g n s"
  shows "baseInv g (Suc n) (snd (CheckConsensusSigns ctx meth input signer s))
    \<and> GetCurrentEpoch (snd (CheckConsensusSigns ctx meth input signer s)) = GetCurrentEpoch s"
  using assms CheckConsensusSigns_fields [of ctx meth input signer s]
  by (auto simp add: baseInv_def GetCurrentEpoch_def getEpoch_def split: option.splits)

lemma baseInv_Propose:
  assumes inv: "baseInv g n s"
    and ok: "Propose derive ctx payload s = (Inr (), s')"
  shows "baseInv g (Suc n) s' \<and> GetCurrentEpoch s' = GetCurrentEpoch s"
proof -
  from baseInvD [OF inv] obtain cur where
    cur: "GetCurrentEpoch s = Some cur"
    and idb: "unat (ID cur) \<le> unat (ID g) + n"
    and keys: "\<And>h e. epochs s h = Some e \<Longrightarrow> EpochInfo_Hash e = h"
    and index: "\<And>i h. h \<in> set (proposals s i) \<Longrightarrow> \<exists>ps sh pr. h = EpochHash i ps sh pr"
    and old: "\<And>h e. epochs s h = Some e \<Longrightarrow> Status e = ProposalStatusPassed \<Longrightarrow>
             unat (ID e) \<le> unat (ID cur)"
    by blast
  from Propose_success [OF ok cur] obtain ep where
    ep: "ID ep = ID cur + 1" "Status ep = ProposalStatusPropose"
    and s': "current_epoch_hash s' = current_epoch_hash s"
      "epochs s' = (epochs s)(EpochInfo_Hash ep \<mapsto> ep)"
      "proposals s' = (proposals s)(ID cur + 1 := proposals s (ID cur + 1) @ [EpochInfo_Hash ep])"
    by blast
  from cur obtain c where c: "current_epoch_hash s = Some c" "epochs s c = Some cur"
    by (auto simp add: GetCurrentEpoch_def getEpoch_def split: option.splits)
  have "EpochInfo_Hash cur = c" using keys [OF c(2)] .
  then have "c \<noteq> EpochInfo_Hash ep"
    using Hash_eq_ID [of cur ep] ep(1) by auto
  then have cur': "GetCurrentEpoch s' = Some cur"
    using c by (simp add: GetCurrentEpoch_def getEpoch_def s')
  have "baseInv g (Suc n) s'"
  proof (rule baseInvI [OF cur'])
    show "unat (ID cur) \<le> unat (ID g) + Suc n" using idb by simp
    show "EpochInfo_Hash e = h" if "epochs s' h = Some e" for h e
      using that keys by (auto simp add: s' split: if_splits)
    show "\<exists>ps sh pr. h = EpochHash i ps sh pr" if "h \<in> set (proposals s' i)" for i h
      using that index ep(1) by (auto simp add: s' EpochInfo_Hash_def split: if_splits)
    show "unat (ID e) \<le> unat (ID cur)"
      if "epochs s' h = Some e" "Status e = ProposalStatusPassed" for h e
      using that old ep(2) by (auto simp add: s' split: if_splits)
  qed
  with cur cur' show ?thesis by simp
qed

lemma baseInv_Vote:
  assumes inv: "baseInv g n s"
    and bound: "unat (ID g) + Suc n < 2 ^ 64"
    and ok: "Vote ctx payload s = (Inr (), s')"
  shows "baseInv g (Suc n) s'
    \<and> (\<exists>c c'. GetCurrentEpoch s = Some c \<and> GetCurrentEpoch s' = Some c'
          \<and> unat (ID c) \<le> unat (ID c'))"
proof -
  from baseInvD [OF inv] obtain cur where
    cur: "GetCurrentEpoch s = Some cur"
    and idb: "unat (ID cur) \<le> unat (ID g) + n"
    and keys: "\<And>h e. epochs s h = Some e \<Longrightarrow> EpochInfo_Hash e = h"
    and index: "\<And>i h. h \<in> set (proposals s i) \<Longrightarrow> \<exists>ps sh pr. h = EpochHash i ps sh pr"
    and old: "\<And>h e. epochs s h = Some e \<Longrightarrow> Status e = ProposalStatusPassed \<Longrightarrow>
             unat (ID e) \<le> unat (ID cur)"
    by blast
  from ok cur obtain input where input: "payload = Some input"
    by (cases payload) (auto simp add: Vote_def Let_def split: if_splits)
  let ?h = "in_Hash input"
  let ?v = "votedState ctx input cur s"
  from Vote_success_cases [OF ok [unfolded input] cur] obtain ep where
    idx: "in_EpochID input = ID cur + 1"
    and ep: "getEpoch s ?h = Some ep" "ID ep = in_EpochID input" "EpochInfo_Hash ep = ?h"
    and cases: "s' = s \<or> s' = ?v \<or> s' = changedState cur ep ?v"
    by blast
  have succ: "unat (ID cur + 1) = unat (ID cur) + 1"
    using idb bound by (intro unat_succ_u64) simp
  from cases consider (same) "s' = s" | (voted) "s' = ?v" | (changed) "s' = changedState cur ep ?v"
    by blast
  then show ?thesis
  proof cases
    case same
    have "baseInv g (Suc n) s"
      using inv by (auto simp add: baseInv_def split: option.splits)
    with cur same show ?thesis by simp
  next
    case voted
    have cur': "GetCurrentEpoch s' = Some cur" using cur by (simp add: voted)
    have "baseInv g (Suc n) s'"
    proof (rule baseInvI [OF cur'])
      show "unat (ID cur) \<le> unat (ID g) + Suc n" using idb by simp
      show "EpochInfo_Hash e = h" if "epochs s' h = Some e" for h e
        using that keys by (simp add: voted)
      show "\<exists>ps sh pr. h = EpochHash i ps sh pr" if "h \<in> set (proposals s' i)" for i h
        using that index by (simp add: voted)
      show "unat (ID e) \<le> unat (ID cur)"
        if "epochs s' h = Some e" "Status e = ProposalStatusPassed" for h e
        using that old by (simp add: voted)
    qed
    with cur cur' show ?thesis by simp
  next
    case changed
    let ?w = "ep\<lparr>Status := ProposalStatusPassed\<rparr>"
    have cur': "GetCurrentEpoch s' = Some ?w"
      by (simp add: changed GetCurrentEpoch_changedState)
    have idw: "ID ?w = ID cur + 1" using ep(2) idx by simp
    have stored: "epochs s ?h = Some ep" using ep(1) by (simp add: getEpoch_def)
    have "baseInv g (Suc n) s'"
    proof (rule baseInvI [OF cur'])
      show "unat (ID ?w) \<le> unat (ID g) + Suc n"
        using idb succ by (simp add: idw)
      show "EpochInfo_Hash e = h" if "epochs s' h = Some e" for h e
        using that keys [of h e] ep(3)
        by (auto simp add: changed changedState_epochs split: if_splits)
      show "\<exists>ps sh pr. h = EpochHash i ps sh pr" if "h \<in> set (proposals s' i)" for i h
        using that index [of h i]
        by (auto simp add: changed changedState_proposals split: if_splits)
      show "unat (ID e) \<le> unat (ID ?w)"
        if "epochs s' h = Some e" "Status e = ProposalStatusPassed" for h e
      proof (cases "h = EpochInfo_Hash ep")
        case True
        with that show ?thesis by (simp add: changed changedState_epochs)
      next
        case False
        with that have "epochs s h = Some e"
          by (auto simp add: changed changedState_epochs split: if_splits)
        from old [OF this that(2)] succ show ?thesis by (simp add: idw)
      qed
    qed
    moreover have "unat (ID cur) \<le> unat (ID ?w)" using succ by (simp add: idw)
    ultimately show ?thesis using cur cur' by simp
  qed
qed

lemma reach_baseInv:
  assumes "reach derive g n s" and "unat (ID g) + n < 2 ^ 64"
  shows "baseInv g n s"
  using assms
proof (induction rule: reach.induct)
  case reach_genesis
  show ?case by (rule baseInv_genesis)
next
  case (reach_Propose n s ctx payload s')
  then have "baseInv g n s" by simp
  from baseInv_Propose [OF this reach_Propose.hyps(2)] show ?case by simp
next
  case (reach_Vote n s ctx payload s')
  then have "baseInv g n s" by simp
  from baseInv_Vote [OF this reach_Vote.prems(1) reach_Vote.hyps(2)] show ?case by simp
next
  case (reach_CheckConsensusSigns n s ctx meth input signer b s')
  then have "baseInv g n s" by simp
  from baseInv_CheckConsensusSigns [OF this, of ctx meth input signer]
  show ?case by (simp add: reach_CheckConsensusSigns.hyps(2))
qed

lemma steps_baseInv:
  assumes "steps derive s0 m t" and "baseInv g n s0" and "unat (ID g) + (n + m) < 2 ^ 64"
  shows "baseInv g (n + m) t
    \<and> (\<exists>c c'. GetCurrentEpoch s0 = Some c \<and> GetCurrentEpoch t = Some c'
          \<and> unat (ID c) \<le> unat (ID c'))"
  using assms
proof (induction rule: steps.induct)
  case steps_start
  then show ?case by (auto dest: baseInvD)
next
  case (steps_Propose m s ctx payload s')
  then have ih: "baseInv g (n + m) s"
    "\<exists>c c'. GetCurrentEpoch s0 = Some c \<and> GetCurrentEpoch s = Some c'
          \<and> unat (ID c) \<le> unat (ID c')"
    by simp_all
  from baseInv_Propose [OF ih(1) steps_Propose.hyps(2)] ih(2) show ?case by auto
next
  case (steps_Vote m s ctx payload s')
  then have ih: "baseInv g (n + m) s"
    "\<exists>c c'. GetCurrentEpoch s0 = Some c \<and> GetCurrentEpoch s = Some c'
          \<and> unat (ID c) \<le> unat (ID c')"
    by simp_all
  have "unat (ID g) + Suc (n + m) < 2 ^ 64" using steps_Vote.prems(2) by simp
  from baseInv_Vote [OF ih(1) this steps_Vote.hyps(2)] ih(2) show ?case by fastforce
next
  case (steps_CheckConsensusSigns m s ctx meth input signer b s')
  then have ih: "baseInv g (n + m) s"
    "\<exists>c c'. GetCurrentEpoch s0 = Some c \<and> GetCurrentEpoch s = Some c'
          \<and> unat (ID c) \<le> unat (ID c')"
    by simp_all
  from baseInv_CheckConsensusSigns [OF ih(1), of ctx meth input signer] ih(2)
  show ?case by (simp add: steps_CheckConsensusSigns.hyps(2))
qed

text \<open>No indexed proposal for the next epoch id has a Passed record.\<close>

lemma baseInv_indexed_not_Passed:
  assumes inv: "baseInv g n s" and bound: "unat (ID g) + n + 1 < 2 ^ 64"
    and cur: "GetCurrentEpoch s = Some cur"
    and idx: "h \<in> set (proposals s (ID cur + 1))"
    and rec: "epochs s h = Some e"
  shows "Status e \<noteq> ProposalStatusPassed"
proof
  assume p: "Status e = ProposalStatusPassed"
  from baseInvD [OF inv] cur have
    idb: "unat (ID cur) \<le> unat (ID g) + n"
    and keys: "\<And>h e. epochs s h = Some e \<Longrightarrow> EpochInfo_Hash e = h"
    and index: "\<And>i h. h \<in> set (proposals s i) \<Longrightarrow> \<exists>ps sh pr. h = EpochHash i ps sh pr"
    and old: "\<And>h e. epochs s h = Some e \<Longrightarrow> Status e = ProposalStatusPassed \<Longrightarrow>
             unat (ID e) \<le> unat (ID cur)"
    by auto
  have succ: "unat (ID cur + 1) = unat (ID cur) + 1"
    using idb bound by (intro unat_succ_u64) simp
  from index [OF idx] keys [OF rec] have "ID e = ID cur + 1"
    by (auto simp add: EpochInfo_Hash_def)
  with old [OF rec p] succ show False by simp
qed

lemma reach_Vote_not_ErrProposalPassed:
  assumes "reach derive g n s" and "unat (ID g) + n + 1 < 2 ^ 64"
  shows "fst (Vote ctx payload s) \<noteq> Inl ErrProposalPassed"
proof -
  have inv: "baseInv g n s" using assms by (intro reach_baseInv) simp_all
  from baseInvD [OF inv] obtain cur where cur: "GetCurrentEpoch s = Some cur" by blast
  have np: "Status e \<noteq> ProposalStatusPassed"
    if "findProposal s (ID cur + 1) h" "getEpoch s h = Some e" for h e
    using baseInv_indexed_not_Passed [OF inv assms(2) cur, of h e] that
    by (simp add: findProposal_def getProposals_def getEpoch_def)
  have r: "fst (recordVote ctx input cur e s) \<noteq> Inl ErrProposalPassed" for input e
    using recordVote_result' [of ctx input cur e s] by auto
  show ?thesis
  proof (cases payload)
    case None
    then show ?thesis using cur by (simp add: Vote_def Let_def)
  next
    case (Some input)
    show ?thesis
    proof (cases "getEpoch s (in_Hash input)")
      case None
      then show ?thesis using cur Some by (simp add: Vote_def Let_def)
    next
      case (Some e)
      with np [of "in_Hash input" e] r show ?thesis
        using cur \<open>payload = Some input\<close> by (simp add: Vote_def Let_def)
    qed
  qed
qed

lemma reach_quorum_rejected:
  assumes r: "reach derive g n s" and len: "2 \<le> length (Peers g)"
    and bound: "unat (ID g) + n + 1 < 2 ^ 64"
    and cur: "GetCurrentEpoch s = Some cur"
    and q: "QuorumSize cur \<le> voteSize s (in_Hash input)"
  shows "(\<exists>e. getEpoch s (in_Hash input) = Some e \<and> Status e = ProposalStatusPassed)
    \<and> (\<exists>err \<in> {ErrInvalidAuthority, ErrInvalidInput, ErrProposalNotExist}.
          Vote ctx (Some input) s = (Inl err, s))
    \<and> (checkAuthority (TxOrigin ctx) (Caller ctx) cur \<longrightarrow>
          (\<exists>err \<in> {ErrInvalidInput, ErrProposalNotExist}.
             Vote ctx (Some input) s = (Inl err, s)))"
proof -
  have inv: "baseInv g n s" using r bound by (intro reach_baseInv) simp_all
  have "stateInv g n s" using r len bound by (intro reach_stateInv) simp_all
  from stateInvD [OF this] cur q obtain e where
    e: "getEpoch s (in_Hash input) = Some e" "Status e = ProposalStatusPassed"
    by (auto simp add: getEpoch_def)
  have "\<not> findProposal s (ID cur + 1) (in_Hash input)"
    using baseInv_indexed_not_Passed [OF inv bound cur, of "in_Hash input" e] e
    by (auto simp add: findProposal_def getProposals_def getEpoch_def)
  then show ?thesis
    using cur e by (auto simp add: Vote_def Let_def)
qed

lemma reach_test_switched: "reach test_derive test_epoch1 4 test_switched"
proof -
  let ?a = "snd (Propose test_derive (test_call 1 100) (Some test_inputA) test_genesis)"
  have r0: "reach test_derive test_epoch1 0 test_genesis"
    by (simp add: test_genesis_eq reach_genesis)
  have "fst (Propose test_derive (test_call 1 100) (Some test_inputA) test_genesis) = Inr ()"
    by (simp add: runs ops prims helpers tests)
  from reach_Propose_step [OF r0 this]
  have r1: "reach test_derive test_epoch1 1 ?a" by simp
  have "fst (Propose test_derive (test_call 2 100) (Some test_inputB) ?a) = Inr ()"
    by (simp add: runs ops prims helpers tests)
  from reach_Propose_step [OF r1 this]
  have r2: "reach test_derive test_epoch1 2 test_proposed"
    by (simp add: test_proposed_def numeral_2_eq_2)
  have "fst (Vote (test_call 3 101) (Some (test_vote test_hashA)) test_proposed) = Inr ()"
    by (simp add: runs ops prims helpers tests)
  from reach_Vote_step [OF r2 this]
  have r3: "reach test_derive test_epoch1 3 test_votedA"
    by (simp add: test_votedA_def numeral_3_eq_3)
  have "fst (Vote (test_call 3 102) (Some (test_vote test_hashB)) test_votedA) = Inr ()"
    by (simp add: runs ops prims helpers tests)
  from reach_Vote_step [OF r3 this]
  show ?thesis
    by (simp add: test_switched_def eval_nat_numeral)
qed

lemma test_Vote4: "Vote (test_call 4 103) (Some (test_vote test_hashB)) test_switched
              = (Inr (), test_passedB)"
  unfolding test_passedB_def
  by (rule prod_eqI) (simp_all add: runs ops prims helpers tests)

text \<open>
  Claim C1. A voter with a live vote for proposal A who votes for proposal B of the same
  epoch id should leave A's tally one lower, B's tally one higher and the pointer on B.
  The source passes the new proposal, not the old one, to \<^verbatim>\<open>deleteVote\<close>. Evaluated
  on the scenario: member 3 has voted for A (tally 2, pointer on A) and votes for B. The
  call succeeds, B's tally goes from 1 to 2 and the pointer moves to B, but A's tally is
  still 2 and member 3 is still in A's vote set.
\<close>

theorem vote_switch_keeps_old_vote:
  "findVoteTo test_votedA 2 3 = test_hashA
   \<and> voteSize test_votedA test_hashA = 2
   \<and> voteSize test_votedA test_hashB = 1
   \<and> fst (Vote (test_call 3 102) (Some (test_vote test_hashB)) test_votedA) = Inr ()
   \<and> voteSize test_switched test_hashA = 2
   \<and> voteSize test_switched test_hashB = 2
   \<and> findVoteTo test_switched 2 3 = test_hashB
   \<and> votes test_switched test_hashA = [3, 1]"
  by (simp add: runs ops prims helpers tests)

text \<open>
  Claim C2. The notification of a completed epoch transition should carry the winning
  epoch's id. The source fills \<^verbatim>\<open>EpochID\<close> with \<^verbatim>\<open>epoch.StartHeight\<close>. Evaluated
  on the scenario: member 4's vote for B completes the transition to the epoch with id 2
  and start height 2000, and the one notification sent carries 2000 as its epoch id.
\<close>

theorem epoch_change_event_id_is_start_height:
  "fst (Vote (test_call 4 103) (Some (test_vote test_hashB)) test_switched) = Inr ()
   \<and> map_option ID (GetCurrentEpoch test_passedB) = Some 2
   \<and> epochChangeFeed test_passedB =
       [\<lparr>ev_EpochID = 2000, ev_StartHeight = 2000, ev_Validators = [1, 2, 3, 4],
         ev_Hash = test_hashB\<rparr>]"
  by (simp add: runs ops prims helpers tests)

text \<open>
  Claim C3. After a proposal passes, the cleanup should delete the last-voted pointer of
  every member of the outgoing epoch, however many sibling proposals there were. In the
  source the pointer loop sits inside the loop over the sibling proposals. Evaluated on
  the second run, where A is the only proposal: member 3's vote completes the transition,
  and the pointers of the outgoing members 1, 2 and 3 for epoch id 2 are still stored. In
  the first run, where A is a sibling of the winner B, all four are deleted.
\<close>

theorem dirtyJob_keeps_pointers_without_sibling:
  "fst (Vote (test_call 3 102) (Some (test_vote test_hashA)) test_onlyA) = Inr ()
   \<and> GetCurrentEpoch test_genesis = Some test_epoch1
   \<and> map_option ID (GetCurrentEpoch test_passedA) = Some 2
   \<and> getProposals test_onlyA 2 = [test_hashA]
   \<and> map (\<lambda>a. vote_to test_passedA (2, a)) (MemberList test_epoch1)
       = [Some test_hashA, Some test_hashA, Some test_hashA, None]
   \<and> map (\<lambda>a. vote_to test_passedB (2, a)) (MemberList test_epoch1)
       = [None, None, None, None]"
  by (simp add: test_onlyA_def test_passedA_def runs ops prims helpers tests)


text \<open>
  Claim C9. A \<^verbatim>\<open>Propose\<close> call by a current validator with fewer than 4 or more than
  100 candidate peers fails with an invalid-peer-set error (\<open>ErrInvalidPeers\<close> for the
  empty list, \<open>ErrPeersNum\<close> otherwise) and writes nothing; with 4 to 100 peers, both
  bounds included, the call gets past the size check: whatever it returns is neither of
  these two errors.
\<close>

theorem Propose_peers_size_check:
  assumes "GetCurrentEpoch s = Some cur"
    and "checkAuthority (TxOrigin ctx) (Caller ctx) cur"
  shows "(length (in_Peers input) < 4 \<or> 100 < length (in_Peers input) \<longrightarrow>
            Propose derive ctx (Some input) s
              \<in> {(Inl ErrInvalidPeers, s), (Inl ErrPeersNum, s)})
       \<and> (4 \<le> length (in_Peers input) \<and> length (in_Peers input) \<le> 100 \<longrightarrow>
            fst (Propose derive ctx (Some input) s) \<notin> {Inl ErrInvalidPeers, Inl ErrPeersNum})"
  using assms
  by (simp add: Propose_def Let_def MinProposalPeersLen_def MaxProposalPeersLen_def
        storeEpoch_def storeProposal_def storeVote_def emitEventProposed_def)

text \<open>
  In the scenario, member 1 proposing three peers is rejected with a size error and the
  state is unchanged; proposing the four peers of B is not rejected by the size check.
\<close>

theorem Propose_peers_size_check_witness:
  "Propose test_derive (test_call 1 100)
       (Some \<lparr>in_StartHeight = 1000, in_Peers = map test_peer [1, 2, 3]\<rparr>) test_genesis
     \<in> {(Inl ErrInvalidPeers, test_genesis), (Inl ErrPeersNum, test_genesis)}
   \<and> fst (Propose test_derive (test_call 1 100) (Some test_inputB) test_genesis)
       \<notin> {Inl ErrInvalidPeers, Inl ErrPeersNum}"
proof -
  have cur: "GetCurrentEpoch test_genesis = Some test_epoch1"
    by (simp add: prims helpers tests)
  have auth: "checkAuthority (TxOrigin (test_call 1 100)) (Caller (test_call 1 100)) test_epoch1"
    by (simp add: helpers tests)
  have short: "length (in_Peers \<lparr>in_StartHeight = 1000, in_Peers = map test_peer [1, 2, 3]\<rparr>) < 4"
    by simp
  have four: "4 \<le> length (in_Peers test_inputB) \<and> length (in_Peers test_inputB) \<le> 100"
    by (simp add: test_inputB_def)
  show ?thesis
    using Propose_peers_size_check [OF cur auth,
            of "\<lparr>in_StartHeight = 1000, in_Peers = map test_peer [1, 2, 3]\<rparr>" test_derive]
          Propose_peers_size_check [OF cur auth, of test_inputB test_derive] short four
    by blast
qed

text \<open>
  Claim C8. Every call to \<^verbatim>\<open>Propose\<close> or \<^verbatim>\<open>Vote\<close>, as the host runs it, is
  atomic: when the call returns an error, of any kind, the state after it is the state
  before it, and when it succeeds the state after it is the state the call has written.
  The revert is the host's; of the functions themselves it holds that an error other than
  the storage error and the event-emission error is returned before the first write.
\<close>

theorem host_call_is_atomic:
  "(fst (Propose derive ctx payload s) = Inl e \<longrightarrow>
      hostCall (Propose derive ctx payload) s = (Inl e, s))
   \<and> (fst (Propose derive ctx payload s) = Inr u \<longrightarrow>
      hostCall (Propose derive ctx payload) s = Propose derive ctx payload s)
   \<and> (fst (Vote ctx payload' s) = Inl e \<longrightarrow>
      hostCall (Vote ctx payload') s = (Inl e, s))
   \<and> (fst (Vote ctx payload' s) = Inr u \<longrightarrow>
      hostCall (Vote ctx payload') s = Vote ctx payload' s)
   \<and> (fst (Propose derive ctx payload s) = Inl e \<and> e \<noteq> ErrStorage \<and> e \<noteq> ErrEmitLog \<longrightarrow>
      snd (Propose derive ctx payload s) = s)
   \<and> (fst (Vote ctx payload' s) = Inl e \<and> e \<noteq> ErrStorage \<and> e \<noteq> ErrEmitLog \<longrightarrow>
      snd (Vote ctx payload' s) = s)"
proof -
  have h: "(fst (f s) = Inl e \<longrightarrow> hostCall f s = (Inl e, s))
      \<and> (fst (f s) = Inr u \<longrightarrow> hostCall f s = f s)"
    for f :: "State \<Rightarrow> (error + unit) \<times> State"
    by (cases "f s") (auto simp add: hostCall_def split: sum.splits)
  from h [of "Propose derive ctx payload"] h [of "Vote ctx payload'"]
    Propose_error_unchanged Vote_error_unchanged
  show ?thesis by blast
qed

text \<open>
  In the scenario: member 3 votes for A while the event sink rejects the Voted event. The
  function returns \<open>ErrEmitLog\<close> after it has stored the vote, and the call as the
  host runs it leaves the state unchanged. The same vote in a host that accepts the event
  commits its writes; a proposal by address 9, not a member, is rejected before any write;
  a proposal by member 1 succeeds.
\<close>

theorem host_call_is_atomic_witness:
  "fst (Vote ((test_call 3 101)\<lparr>fails := (\<lambda>c. c = OpEmitVoted)\<rparr>)
          (Some (test_vote test_hashA)) test_proposed) = Inl ErrEmitLog
   \<and> votes (snd (Vote ((test_call 3 101)\<lparr>fails := (\<lambda>c. c = OpEmitVoted)\<rparr>)
          (Some (test_vote test_hashA)) test_proposed)) test_hashA = [3, 1]
   \<and> votes test_proposed test_hashA = [1]
   \<and> hostCall (Vote ((test_call 3 101)\<lparr>fails := (\<lambda>c. c = OpEmitVoted)\<rparr>)
          (Some (test_vote test_hashA))) test_proposed = (Inl ErrEmitLog, test_proposed)
   \<and> hostCall (Vote (test_call 3 101) (Some (test_vote test_hashA))) test_proposed
       = (Inr (), test_votedA)
   \<and> hostCall (Propose test_derive (test_call 9 100) (Some test_inputA)) test_genesis
       = (Inl ErrInvalidAuthority, test_genesis)
   \<and> snd (Propose test_derive (test_call 9 100) (Some test_inputA) test_genesis) = test_genesis
   \<and> fst (hostCall (Propose test_derive (test_call 1 100) (Some test_inputA)) test_genesis)
       = Inr ()"
proof -
  let ?bad = "(test_call 3 101)\<lparr>fails := (\<lambda>c. c = OpEmitVoted)\<rparr>"
  have f: "fst (Vote ?bad (Some (test_vote test_hashA)) test_proposed) = Inl ErrEmitLog
      \<and> votes (snd (Vote ?bad (Some (test_vote test_hashA)) test_proposed)) test_hashA = [3, 1]
      \<and> votes test_proposed test_hashA = [1]"
    by (simp add: runs ops prims helpers tests)
  have v: "fst (Vote (test_call 3 101) (Some (test_vote test_hashA)) test_proposed) = Inr ()"
    by (simp add: runs ops prims helpers tests)
  then have v': "Vote (test_call 3 101) (Some (test_vote test_hashA)) test_proposed
      = (Inr (), test_votedA)"
    by (simp add: test_votedA_def prod_eq_iff)
  have p: "fst (Propose test_derive (test_call 9 100) (Some test_inputA) test_genesis)
      = Inl ErrInvalidAuthority"
    by (simp add: Propose_def Let_def prims helpers tests)
  have p1: "fst (Propose test_derive (test_call 1 100) (Some test_inputA) test_genesis) = Inr ()"
    by (simp add: runs ops prims helpers tests)
  note i1 = host_call_is_atomic [where ctx = ?bad and payload' = "Some (test_vote test_hashA)"
      and s = test_proposed and e = ErrEmitLog]
  note i2 = host_call_is_atomic [where ctx = "test_call 3 101"
      and payload' = "Some (test_vote test_hashA)" and s = test_proposed and u = "()"]
  note i3 = host_call_is_atomic [where derive = test_derive and ctx = "test_call 9 100"
      and payload = "Some test_inputA" and s = test_genesis and e = ErrInvalidAuthority]
  note i4 = host_call_is_atomic [where derive = test_derive and ctx = "test_call 1 100"
      and payload = "Some test_inputA" and s = test_genesis and u = "()"]
  have a: "hostCall (Vote ?bad (Some (test_vote test_hashA))) test_proposed
      = (Inl ErrEmitLog, test_proposed)"
    using i1 f by blast
  have b: "hostCall (Vote (test_call 3 101) (Some (test_vote test_hashA))) test_proposed
       = (Inr (), test_votedA)"
    using i2 v v' by simp
  have c: "hostCall (Propose test_derive (test_call 9 100) (Some test_inputA)) test_genesis
       = (Inl ErrInvalidAuthority, test_genesis)
     \<and> snd (Propose test_derive (test_call 9 100) (Some test_inputA) test_genesis) = test_genesis"
    using i3 p by simp
  have d: "fst (hostCall (Propose test_derive (test_call 1 100) (Some test_inputA)) test_genesis)
       = Inr ()"
    using i4 p1 by simp
  from f a b c d show ?thesis by simp
qed

text \<open>
  Claim C4, as stated, fails: a vote for a proposal that has already passed is rejected.
  In the scenario B has passed with 3 votes, the quorum of the new current epoch is 3, and
  member 1 is a member of it. A vote by member 1 for B under epoch id 2 returns
  \<open>ErrInvalidInput\<close>, and under the next epoch id 3 it returns
  \<open>ErrProposalNotExist\<close>.
\<close>

theorem Vote_for_passed_proposal_fails:
  "map_option Status (getEpoch test_passedB test_hashB) = Some ProposalStatusPassed
   \<and> map_option QuorumSize (GetCurrentEpoch test_passedB) = Some 3
   \<and> voteSize test_passedB test_hashB = 3
   \<and> map_option (checkAuthority 1 1) (GetCurrentEpoch test_passedB) = Some True
   \<and> fst (Vote (test_call 1 104) (Some (test_vote test_hashB)) test_passedB)
       = Inl ErrInvalidInput
   \<and> fst (Vote (test_call 1 104) (Some \<lparr>in_EpochID = 3, in_Hash = test_hashB\<rparr>) test_passedB)
       = Inl ErrProposalNotExist"
  by (simp add: runs ops prims helpers tests)

text \<open>
  Claim C4, amended. A \<^verbatim>\<open>Vote\<close> call naming a proposal whose tally is at or above
  the quorum of the current epoch leaves the whole state unchanged, and it does not return
  success. When the proposal's record is Passed the call fails with the error of the
  authority, epoch id, index or status check. In every state reached by successful calls
  from a first epoch of at least two members, short of a wrap-around of the epoch id, the
  call fails with \<open>ErrInvalidAuthority\<close>, \<open>ErrInvalidInput\<close> or
  \<open>ErrProposalNotExist\<close>, and for a caller who is a current validator with one of the
  last two.
\<close>

theorem Vote_at_quorum_unchanged:
  assumes cur: "GetCurrentEpoch s = Some cur"
    and q: "QuorumSize cur \<le> voteSize s (in_Hash input)"
  shows "snd (Vote ctx (Some input) s) = s
    \<and> (\<forall>e. getEpoch s (in_Hash input) = Some e \<and> Status e = ProposalStatusPassed \<longrightarrow>
          fst (Vote ctx (Some input) s) \<in>
            {Inl ErrInvalidAuthority, Inl ErrInvalidInput, Inl ErrProposalNotExist,
             Inl ErrProposalPassed})
    \<and> (reach derive g n s \<and> 2 \<le> length (Peers g) \<and> unat (ID g) + n + 1 < 2 ^ 64 \<longrightarrow>
          fst (Vote ctx (Some input) s) \<in>
            {Inl ErrInvalidAuthority, Inl ErrInvalidInput, Inl ErrProposalNotExist}
          \<and> (checkAuthority (TxOrigin ctx) (Caller ctx) cur \<longrightarrow>
               fst (Vote ctx (Some input) s) \<in> {Inl ErrInvalidInput, Inl ErrProposalNotExist}))"
proof -
  have a: "snd (Vote ctx (Some input) s) = s
    \<and> (\<forall>e. getEpoch s (in_Hash input) = Some e \<and> Status e = ProposalStatusPassed \<longrightarrow>
          fst (Vote ctx (Some input) s) \<in>
            {Inl ErrInvalidAuthority, Inl ErrInvalidInput, Inl ErrProposalNotExist,
             Inl ErrProposalPassed})"
    using cur q by (auto simp add: Vote_def Let_def split: option.splits)
  have b: "fst (Vote ctx (Some input) s) \<in>
            {Inl ErrInvalidAuthority, Inl ErrInvalidInput, Inl ErrProposalNotExist}
          \<and> (checkAuthority (TxOrigin ctx) (Caller ctx) cur \<longrightarrow>
               fst (Vote ctx (Some input) s) \<in> {Inl ErrInvalidInput, Inl ErrProposalNotExist})"
    if "reach derive g n s" "2 \<le> length (Peers g)" "unat (ID g) + n + 1 < 2 ^ 64"
    using reach_quorum_rejected [OF that cur q, of ctx] by auto
  from a b show ?thesis by blast
qed

text \<open>
  In the scenario, in the state reached by five calls in which B has passed with 3 votes:
  the vote of member 1, a current validator, for B fails with one of the two errors and
  changes nothing.
\<close>

theorem Vote_at_quorum_unchanged_witness:
  "snd (Vote (test_call 1 104) (Some (test_vote test_hashB)) test_passedB) = test_passedB
   \<and> fst (Vote (test_call 1 104) (Some (test_vote test_hashB)) test_passedB)
       \<in> {Inl ErrInvalidInput, Inl ErrProposalNotExist}"
proof -
  let ?w = "\<lparr>ID = 2, Peers = map test_peer [1, 2, 3, 4], StartHeight = 2000, Proposer = 2,
             Status = ProposalStatusPassed\<rparr>"
  have cur: "GetCurrentEpoch test_passedB = Some ?w"
    by (simp add: runs ops prims helpers tests)
  have q: "QuorumSize ?w \<le> voteSize test_passedB (in_Hash (test_vote test_hashB))"
    by (simp add: runs ops prims helpers tests)
  have len: "2 \<le> length (Peers test_epoch1)"
    by (simp add: test_epoch1_def)
  have bound: "unat (ID test_epoch1) + 5 + 1 < 2 ^ 64"
    by (simp add: test_epoch1_def)
  have auth: "checkAuthority (TxOrigin (test_call 1 104)) (Caller (test_call 1 104)) ?w"
    by (simp add: helpers tests)
  show ?thesis
    using Vote_at_quorum_unchanged [OF cur q, of "test_call 1 104" test_derive test_epoch1 5]
      reach_test_passedB len bound auth
    by blast
qed

text \<open>
  Claim C5, as stated, fails on the error kind. In the scenario B has passed for epoch id
  2 and A was its sibling. A vote by member 1, a member of the new epoch, for A under
  epoch id 2 fails with \<open>ErrInvalidInput\<close>, not with \<open>ErrProposalPassed\<close>: the
  epoch id is no longer the current id plus one.
\<close>

theorem Vote_for_sibling_after_transition:
  "fst (Vote (test_call 4 103) (Some (test_vote test_hashB)) test_switched) = Inr ()
   \<and> map_option ID (GetCurrentEpoch test_passedB) = Some 2
   \<and> map_option (checkAuthority 1 1) (GetCurrentEpoch test_passedB) = Some True
   \<and> Vote (test_call 1 104) (Some (test_vote test_hashA)) test_passedB
       = (Inl ErrInvalidInput, test_passedB)"
  by (simp add: Vote_def [of "test_call 1 104"] Let_def) (simp add: runs ops prims helpers tests)

text \<open>
  Claim C5, amended. Let a \<^verbatim>\<open>Vote\<close> call in a reachable state complete an epoch
  transition for epoch id \<open>e\<close> (it publishes a notification): the winning proposal, now
  Passed, is the current epoch and has id \<open>e\<close>. In the state this call leaves and in
  every state reached from it by further successful calls, short of a wrap-around of the
  epoch id, every \<^verbatim>\<open>Vote\<close> call for epoch id \<open>e\<close>, whatever proposal it names, fails
  with \<open>ErrInvalidAuthority\<close> (caller not a current validator) or
  \<open>ErrInvalidInput\<close>, never with \<open>ErrProposalPassed\<close>, and leaves the state
  unchanged.
\<close>

theorem Vote_after_transition_fails:
  assumes r: "reach derive g n s"
    and ok: "Vote ctx (Some input) s = (Inr (), s')"
    and tr: "epochChangeFeed s' \<noteq> epochChangeFeed s"
    and later: "steps derive s' m t"
    and bound: "unat (ID g) + n + m + 2 < 2 ^ 64"
  shows "(\<exists>w. GetCurrentEpoch s' = Some w \<and> ID w = in_EpochID input
           \<and> EpochInfo_Hash w = in_Hash input \<and> Status w = ProposalStatusPassed)
       \<and> Vote ctx' (Some \<lparr>in_EpochID = in_EpochID input, in_Hash = h\<rparr>) t
            \<in> {(Inl ErrInvalidAuthority, t), (Inl ErrInvalidInput, t)}"
proof -
  have inv: "baseInv g n s" using r bound by (intro reach_baseInv) simp_all
  from baseInvD [OF inv] obtain cur where cur: "GetCurrentEpoch s = Some cur" by blast
  from Vote_success_cases [OF ok cur] tr
  obtain ep where ep: "ID ep = in_EpochID input" "EpochInfo_Hash ep = in_Hash input"
    and s': "s' = changedState cur ep (votedState ctx input cur s)"
    by auto
  let ?w = "ep\<lparr>Status := ProposalStatusPassed\<rparr>"
  have w: "GetCurrentEpoch s' = Some ?w"
    by (simp add: s' GetCurrentEpoch_changedState)
  have "unat (ID g) + Suc n < 2 ^ 64" using bound by simp
  from baseInv_Vote [OF inv this ok] have inv': "baseInv g (Suc n) s'" by simp
  have "unat (ID g) + (Suc n + m) < 2 ^ 64" using bound by simp
  from steps_baseInv [OF later inv' this] w obtain c where
    invt: "baseInv g (Suc n + m) t" and c: "GetCurrentEpoch t = Some c"
    and mono: "unat (ID ?w) \<le> unat (ID c)"
    by auto
  from baseInvD [OF invt] c have "unat (ID c) \<le> unat (ID g) + (Suc n + m)" by auto
  then have "unat (ID c + 1) = unat (ID c) + 1"
    using bound by (intro unat_succ_u64) simp
  with mono have "ID ?w \<noteq> ID c + 1" by auto
  then have "in_EpochID input \<noteq> ID c + 1" using ep(1) by simp
  then have "Vote ctx' (Some \<lparr>in_EpochID = in_EpochID input, in_Hash = h\<rparr>) t
            \<in> {(Inl ErrInvalidAuthority, t), (Inl ErrInvalidInput, t)}"
    using c by (simp add: Vote_def Let_def)
  with w ep show ?thesis by simp
qed

text \<open>
  In the scenario: member 4's vote makes B the current epoch with id 2; member 1 then
  proposes D for epoch id 3; in the state after that, the vote of member 1 for the sibling
  A under epoch id 2 fails without a change.
\<close>

theorem Vote_after_transition_fails_witness:
  "(\<exists>w. GetCurrentEpoch test_passedB = Some w \<and> ID w = 2
           \<and> EpochInfo_Hash w = test_hashB \<and> Status w = ProposalStatusPassed)
   \<and> map_option ID (GetCurrentEpoch test_later) = Some 2
   \<and> length (getProposals test_later 3) = 1
   \<and> Vote (test_call 1 105) (Some \<lparr>in_EpochID = 2, in_Hash = test_hashA\<rparr>) test_later
          \<in> {(Inl ErrInvalidAuthority, test_later), (Inl ErrInvalidInput, test_later)}"
proof -
  have feed: "epochChangeFeed test_passedB \<noteq> epochChangeFeed test_switched"
    by (simp add: runs ops prims helpers tests)
  have "fst (Propose test_derive (test_call 1 104) (Some test_inputD) test_passedB) = Inr ()"
    by (simp add: test_inputD_def runs ops prims helpers tests)
  then have "Propose test_derive (test_call 1 104) (Some test_inputD) test_passedB
      = (Inr (), test_later)"
    by (simp add: test_later_def prod_eq_iff)
  from steps_Propose [OF steps_start this]
  have later: "steps test_derive test_passedB 1 test_later" by simp
  have bound: "unat (ID test_epoch1) + 4 + 1 + 2 < 2 ^ 64"
    by (simp add: test_epoch1_def)
  have rest: "map_option ID (GetCurrentEpoch test_later) = Some 2
      \<and> length (getProposals test_later 3) = 1"
    by (simp add: test_later_def test_inputD_def runs ops prims helpers tests)
  from Vote_after_transition_fails [OF reach_test_switched test_Vote4 feed later bound,
      of "test_call 1 105" test_hashA] rest
  show ?thesis by (simp add: test_vote_def)
qed



text \<open>
  Claim C7, as stated, fails: a later call for the same pair is not always approved. In
  the third run members 1, 2 and 3 sign and the third call is approved under the quorum of
  3. Then the seven-member epoch C becomes the current epoch, with a quorum of 5. Member
  4, a current validator who has not signed, now signs the same pair and is not approved,
  and member 1 signing again gets \<open>ErrDuplicateSigner\<close>.
\<close>

theorem CheckConsensusSigns_later_call_not_approved:
  "fst (CheckConsensusSigns (test_call 3 100) ''m'' [7] 3 test_signed2) = Inr True
   \<and> signers test_grown (SignHash ''m'' [7]) = [3, 2, 1]
   \<and> map_option QuorumSize (GetCurrentEpoch test_grown) = Some 5
   \<and> map_option (checkAuthority 4 4) (GetCurrentEpoch test_grown) = Some True
   \<and> fst (CheckConsensusSigns (test_call 4 104) ''m'' [7] 4 test_grown) = Inr False
   \<and> fst (CheckConsensusSigns (test_call 1 104) ''m'' [7] 1 test_grown)
       = Inl ErrDuplicateSigner"
  by (simp add: test_grown_def test_signed3_def test_signed2_def test_signed1_def
        test_inputC_def test_hashC_def runs ops prims helpers tests)

text \<open>
  Claim C7, amended. For a signer who is a current validator at the call, in a host whose
  storage and event calls succeed, and a sign record that is absent or is the one of this
  pair: if the signer is already in the signer set of the pair,
  \<^verbatim>\<open>CheckConsensusSigns\<close> fails with \<open>ErrDuplicateSigner\<close>; otherwise it returns
  approved exactly when the signer set, with this signer counted, has at least as many
  members as the quorum of the epoch current at the call. So the call that reaches the
  threshold is approved, and a later call by a new signer is approved as long as the
  quorum of the then current epoch is not above that count. The signer is added to the
  set unless the set had reached the quorum before the call.
\<close>

theorem CheckConsensusSigns_duplicate_and_quorum:
  assumes cur: "GetCurrentEpoch s = Some epoch"
    and auth: "checkAuthority signer (Caller ctx) epoch"
    and host: "\<not> fails ctx OpGetSign" "\<not> fails ctx OpStoreSign" "\<not> fails ctx OpStoreSigner"
      "\<not> fails ctx OpEmitConsensusSign"
    and stored: "signs s (SignHash method input) = None
       \<or> signs s (SignHash method input) = Some \<lparr>Method = method, Input = input\<rparr>"
  shows "(signer \<in> set (signers s (SignHash method input)) \<longrightarrow>
           fst (CheckConsensusSigns ctx method input signer s) = Inl ErrDuplicateSigner)
       \<and> (signer \<notin> set (signers s (SignHash method input)) \<longrightarrow>
           fst (CheckConsensusSigns ctx method input signer s)
             = Inr (QuorumSize epoch \<le> Suc (length (signers s (SignHash method input))))
           \<and> signers (snd (CheckConsensusSigns ctx method input signer s)) (SignHash method input)
             = (if QuorumSize epoch \<le> length (signers s (SignHash method input))
                then signers s (SignHash method input)
                else signer # signers s (SignHash method input)))"
  using stored
proof
  assume "signs s (SignHash method input) = None"
  then show ?thesis
    using cur auth host
    by (simp add: CheckConsensusSigns_def checkSigner_def Let_def getSign_def storeSign_def
          findSigner_def getSignerSize_def storeSigner_def emitConsensusSign_def
          ConsensusSign_Hash_def)
next
  assume "signs s (SignHash method input) = Some \<lparr>Method = method, Input = input\<rparr>"
  then show ?thesis
    using cur auth host
    by (simp add: CheckConsensusSigns_def checkSigner_def Let_def getSign_def storeSign_def
          findSigner_def getSignerSize_def storeSigner_def emitConsensusSign_def
          ConsensusSign_Hash_def)
qed

text \<open>
  In the third run members 1 and 2 have signed: member 1 signing again is a duplicate,
  and member 3, the third of a quorum of 3, is approved.
\<close>

theorem CheckConsensusSigns_duplicate_and_quorum_witness:
  "fst (CheckConsensusSigns (test_call 1 101) ''m'' [7] 1 test_signed2) = Inl ErrDuplicateSigner
   \<and> fst (CheckConsensusSigns (test_call 3 101) ''m'' [7] 3 test_signed2) = Inr True
   \<and> signers (snd (CheckConsensusSigns (test_call 3 101) ''m'' [7] 3 test_signed2))
        (SignHash ''m'' [7]) = [3, 2, 1]"
proof -
  have cur: "GetCurrentEpoch test_signed2 = Some test_epoch1"
    by (simp add: test_signed1_def test_signed2_def runs ops prims helpers tests)
  have auth1: "checkAuthority 1 (Caller (test_call 1 101)) test_epoch1"
    and auth3: "checkAuthority 3 (Caller (test_call 3 101)) test_epoch1"
    by (simp_all add: helpers tests)
  have host: "\<not> fails (test_call a 101) c" for a c
    by (simp add: test_call_def)
  have stored: "signs test_signed2 (SignHash ''m'' [7]) = None
       \<or> signs test_signed2 (SignHash ''m'' [7]) = Some \<lparr>Method = ''m'', Input = [7]\<rparr>"
    by (simp add: test_signed1_def test_signed2_def runs ops prims helpers tests)
  have set: "signers test_signed2 (SignHash ''m'' [7]) = [2, 1]"
    by (simp add: test_signed1_def test_signed2_def runs ops prims helpers tests)
  have q: "QuorumSize test_epoch1 = 3"
    by (simp add: helpers tests)
  show ?thesis
    using CheckConsensusSigns_duplicate_and_quorum [OF cur auth1 host host host host stored]
      CheckConsensusSigns_duplicate_and_quorum [OF cur auth3 host host host host stored]
    by (simp add: set q)
qed

text \<open>
  Claim C10, as stated, fails in two ways. From a first epoch with the single member 1,
  whose quorum is 1, the proposal of A by member 1 leaves A with a tally of 1, at quorum,
  in status Proposed, and a vote for A then returns success through the early-success
  branch. And where a proposal at quorum is Passed, as B in the scenario, it is not the
  Passed-status check that rejects a vote for it: the epoch id check does, with
  \<open>ErrInvalidInput\<close>.
\<close>

theorem quorum_tally_not_Passed_from_one_member:
  "reach test_derive test_epochSolo 1 test_soloProposed
   \<and> GetCurrentEpoch test_soloProposed = Some test_epochSolo
   \<and> QuorumSize test_epochSolo = 1
   \<and> voteSize test_soloProposed test_hashA = 1
   \<and> map_option Status (getEpoch test_soloProposed test_hashA) = Some ProposalStatusPropose
   \<and> Vote (test_call 1 101) (Some (test_vote test_hashA)) test_soloProposed
       = (Inr (), test_soloProposed)
   \<and> map_option Status (getEpoch test_passedB test_hashB) = Some ProposalStatusPassed
   \<and> fst (Vote (test_call 2 104) (Some (test_vote test_hashB)) test_passedB)
       = Inl ErrInvalidInput"
proof -
  have "fst (Propose test_derive (test_call 1 100) (Some test_inputA)
          (genesisState test_epochSolo)) = Inr ()"
    by (simp add: test_epochSolo_def genesisState_def ops prims helpers tests)
  from reach_Propose_step [OF reach_genesis this]
  have r: "reach test_derive test_epochSolo 1 test_soloProposed"
    by (simp add: test_soloProposed_def)
  have v: "Vote (test_call 1 101) (Some (test_vote test_hashA)) test_soloProposed
       = (Inr (), test_soloProposed)"
    by (simp add: Vote_def Let_def)
      (simp add: test_soloProposed_def test_epochSolo_def genesisState_def ops prims helpers
        tests)
  have rest: "GetCurrentEpoch test_soloProposed = Some test_epochSolo
   \<and> QuorumSize test_epochSolo = 1
   \<and> voteSize test_soloProposed test_hashA = 1
   \<and> map_option Status (getEpoch test_soloProposed test_hashA) = Some ProposalStatusPropose"
    by (simp add: test_soloProposed_def test_epochSolo_def genesisState_def ops prims helpers
        tests)
  have b: "map_option Status (getEpoch test_passedB test_hashB) = Some ProposalStatusPassed
   \<and> fst (Vote (test_call 2 104) (Some (test_vote test_hashB)) test_passedB)
       = Inl ErrInvalidInput"
    by (simp add: runs ops prims helpers tests)
  from r v rest b show ?thesis by simp
qed

text \<open>
  Claim C10, amended. Take any state reached by successful calls of \<^verbatim>\<open>Propose\<close>,
  \<^verbatim>\<open>Vote\<close> and \<^verbatim>\<open>CheckConsensusSigns\<close> from a first epoch of at least two
  members, short of a wrap-around of the 64-bit epoch id. In it, every proposal hash whose
  vote tally is at or above the quorum of the current epoch has a stored record in status
  Passed. So a \<^verbatim>\<open>Vote\<close> call naming such a hash never takes the early-success branch:
  it is rejected, without a change, by the authority, epoch id or index check
  (\<open>ErrInvalidAuthority\<close>, \<open>ErrInvalidInput\<close>, \<open>ErrProposalNotExist\<close>). The
  Passed-status check itself rejects no call in such a state: \<^verbatim>\<open>Vote\<close> never returns
  \<open>ErrProposalPassed\<close>.
\<close>

theorem quorum_tally_is_Passed:
  assumes "reach derive g n s"
    and "2 \<le> length (Peers g)"
    and "unat (ID g) + n + 1 < 2 ^ 64"
    and "GetCurrentEpoch s = Some cur"
  shows "(\<forall>h. QuorumSize cur \<le> voteSize s h \<longrightarrow>
            (\<exists>e. getEpoch s h = Some e \<and> Status e = ProposalStatusPassed))
       \<and> (\<forall>ctx input. QuorumSize cur \<le> voteSize s (in_Hash input) \<longrightarrow>
            (\<exists>err \<in> {ErrInvalidAuthority, ErrInvalidInput, ErrProposalNotExist}.
               Vote ctx (Some input) s = (Inl err, s)))
       \<and> (\<forall>ctx payload. fst (Vote ctx payload s) \<noteq> Inl ErrProposalPassed)"
proof (intro conjI allI impI)
  fix h assume "QuorumSize cur \<le> voteSize s h"
  then have "QuorumSize cur \<le> voteSize s (in_Hash \<lparr>in_EpochID = 0, in_Hash = h\<rparr>)" by simp
  from reach_quorum_rejected [OF assms this]
  show "\<exists>e. getEpoch s h = Some e \<and> Status e = ProposalStatusPassed" by simp
next
  fix ctx :: Context and input :: MethodVoteInput
  assume "QuorumSize cur \<le> voteSize s (in_Hash input)"
  from reach_quorum_rejected [OF assms this, of ctx]
  show "\<exists>err \<in> {ErrInvalidAuthority, ErrInvalidInput, ErrProposalNotExist}.
               Vote ctx (Some input) s = (Inl err, s)" by blast
next
  fix ctx :: Context and payload :: "MethodVoteInput option"
  show "fst (Vote ctx payload s) \<noteq> Inl ErrProposalPassed"
    using assms(1,3) by (rule reach_Vote_not_ErrProposalPassed)
qed

text \<open>
  In the scenario the state after B has passed is reached by five calls; B has 3 votes,
  the quorum of the current epoch is 3, B's record is Passed, and a vote for B is
  rejected, not by the Passed-status check.
\<close>

theorem quorum_tally_is_Passed_witness:
  "voteSize test_passedB test_hashB = 3
   \<and> map_option QuorumSize (GetCurrentEpoch test_passedB) = Some 3
   \<and> (\<exists>e. getEpoch test_passedB test_hashB = Some e \<and> Status e = ProposalStatusPassed)
   \<and> (\<exists>err \<in> {ErrInvalidAuthority, ErrInvalidInput, ErrProposalNotExist}.
         Vote (test_call 1 104) (Some (test_vote test_hashB)) test_passedB
               = (Inl err, test_passedB))
   \<and> fst (Vote (test_call 1 104) (Some (test_vote test_hashB)) test_passedB)
        \<noteq> Inl ErrProposalPassed"
proof -
  let ?w = "\<lparr>ID = 2, Peers = map test_peer [1, 2, 3, 4], StartHeight = 2000, Proposer = 2,
             Status = ProposalStatusPassed\<rparr>"
  have len: "2 \<le> length (Peers test_epoch1)"
    by (simp add: test_epoch1_def)
  have bound: "unat (ID test_epoch1) + 5 + 1 < 2 ^ 64"
    by (simp add: test_epoch1_def)
  have cur: "GetCurrentEpoch test_passedB = Some ?w"
    by (simp add: runs ops prims helpers tests)
  have tally: "voteSize test_passedB test_hashB = 3" and q: "QuorumSize ?w = 3"
    by (simp_all add: runs ops prims helpers tests)
  have v: "in_Hash (test_vote test_hashB) = test_hashB"
    by (simp add: test_vote_def)
  from quorum_tally_is_Passed [OF reach_test_passedB len bound cur] tally q v
  have "(\<exists>e. getEpoch test_passedB test_hashB = Some e \<and> Status e = ProposalStatusPassed)
   \<and> (\<exists>err \<in> {ErrInvalidAuthority, ErrInvalidInput, ErrProposalNotExist}.
         Vote (test_call 1 104) (Some (test_vote test_hashB)) test_passedB
               = (Inl err, test_passedB))
   \<and> fst (Vote (test_call 1 104) (Some (test_vote test_hashB)) test_passedB)
        \<noteq> Inl ErrProposalPassed"
    by (metis order_refl)
  with cur tally q show ?thesis by simp
qed
end
